theory Spec2Isabelle
  imports Complex_Main "HOL-Library.Multiset"
begin

section \<open>Data model of the process view (ProcessesTab.tsx)\<close>

text \<open>
  The two interfaces of ProcessesTab.tsx. A pid is a non-negative JavaScript number and
  is modelled as a natural number; \<open>parent_pid: number | null\<close> is an option. The two
  samples \<open>memory_mb\<close> and \<open>cpu_percent\<close> are only carried along. The field
  \<open>instance_type\<close> exists in both interfaces; the one of the group is called
  \<open>group_instance_type\<close> here.
\<close>

record ProcessInfo =
  pid :: nat
  parent_pid :: "nat option"
  name :: string
  exe_path :: string
  cmd_args :: "string list"
  process_type :: string
  memory_mb :: real
  cpu_percent :: real
  url :: string
  cdp_target_type :: string
  instance_type :: string

record ProcessGroup =
  browser_pid :: nat
  browser_exe :: string
  channel :: string
  group_instance_type :: string
  host_app :: string
  processes :: "ProcessInfo list"

text \<open>
  One entry of the answer of \<open>get_cdp_urls\<close>:
  \<open>{ process_id: number | null; url: string; target_type: string | null }\<close>.
  The answer itself is an object from port strings to entry arrays; an object has no
  duplicate keys, so it is an association list read with \<open>map_of\<close>.
\<close>

record CdpPage =
  process_id :: "nat option"
  page_url :: string
  target_type :: "string option"

type_synonym PortMap = "(string \<times> CdpPage list) list"

text \<open>
  A state updater either hands back the very object it received or a freshly allocated
  one. \<open>Same\<close> stands for the first case (reference identity), \<open>Fresh\<close> carries the
  new object.
\<close>

datatype 'a updated = Same | Fresh 'a

fun resolve :: "'a \<Rightarrow> 'a updated \<Rightarrow> 'a" where
  "resolve old Same = old"
| "resolve old (Fresh new) = new"

fun is_fresh :: "'a updated \<Rightarrow> bool" where
  "is_fresh Same = False"
| "is_fresh (Fresh new) = True"

definition all_procs :: "ProcessGroup list \<Rightarrow> ProcessInfo list" where
  "all_procs gs = concat (map processes gs)"

definition pids_of :: "ProcessGroup list \<Rightarrow> nat list" where
  "pids_of gs = map pid (all_procs gs)"

section \<open>Carry-forward on publish (refresh, lines 87-103)\<close>

text \<open>
  \<open>urlMap\<close>: the two nested loops over the previous groups; \<open>if (p.url)\<close> is true for
  a non-empty string, and a later \<open>set\<close> for the same pid replaces an earlier one.
\<close>

definition urlMap_step :: "(nat \<rightharpoonup> string \<times> string) \<Rightarrow> ProcessInfo \<Rightarrow> (nat \<rightharpoonup> string \<times> string)" where
  "urlMap_step m p = (if url p \<noteq> [] then m(pid p \<mapsto> (url p, cdp_target_type p)) else m)"

definition urlMap_of :: "ProcessGroup list \<Rightarrow> (nat \<rightharpoonup> string \<times> string)" where
  "urlMap_of prev = foldl (\<lambda>m g. foldl urlMap_step m (processes g)) Map.empty prev"

definition carry_proc :: "(nat \<rightharpoonup> string \<times> string) \<Rightarrow> ProcessInfo \<Rightarrow> ProcessInfo" where
  "carry_proc urlMap proc =
     (case urlMap (pid proc) of
        Some pv \<Rightarrow> proc\<lparr>url := fst pv, cdp_target_type := snd pv\<rparr>
      | None \<Rightarrow> proc)"

definition carry_forward :: "ProcessGroup list \<Rightarrow> ProcessGroup list \<Rightarrow> ProcessGroup list" where
  "carry_forward prev data =
     map (\<lambda>grp. grp\<lparr>processes := map (carry_proc (urlMap_of prev)) (processes grp)\<rparr>) data"

section \<open>Merging the debug targets (refresh, lines 111-140)\<close>

text \<open>
  \<open>p.process_id && p.process_id === proc.pid\<close>: a null and a zero process id are both
  falsy, so neither matches.
\<close>

definition pid_matches :: "ProcessInfo \<Rightarrow> CdpPage \<Rightarrow> bool" where
  "pid_matches proc p = (case process_id p of None \<Rightarrow> False | Some n \<Rightarrow> n \<noteq> 0 \<and> n = pid proc)"

text \<open>\<open>match.target_type ?? ""\<close>\<close>

definition target_text :: "CdpPage \<Rightarrow> string" where
  "target_text m = (case target_type m of None \<Rightarrow> [] | Some t \<Rightarrow> t)"

definition patch_proc :: "CdpPage list \<Rightarrow> ProcessInfo \<Rightarrow> ProcessInfo updated" where
  "patch_proc pages proc =
     (case find (pid_matches proc) pages of
        Some m \<Rightarrow>
          if page_url m \<noteq> url proc \<or> target_text m \<noteq> cdp_target_type proc
          then Fresh (proc\<lparr>url := page_url m, cdp_target_type := target_text m\<rparr>)
          else Same
      | None \<Rightarrow> Same)"

definition startsWith :: "string \<Rightarrow> string \<Rightarrow> bool" where
  "startsWith s pre = (take (length pre) s = pre)"

text \<open>\<open>String.prototype.split\<close> with a one-character separator.\<close>

fun split_on :: "char \<Rightarrow> string \<Rightarrow> string list" where
  "split_on c [] = [[]]"
| "split_on c (x # xs) =
     (if x = c then [] # split_on c xs
      else (case split_on c xs of w # ws \<Rightarrow> (x # w) # ws | [] \<Rightarrow> [[x]]))"

definition debug_port_flag :: string where
  "debug_port_flag = ''--remote-debugging-port=''"

definition is_browser :: "ProcessInfo \<Rightarrow> bool" where
  "is_browser p = (process_type p = ''Browser'')"

text \<open>
  Lines 117-120: the first member of type Browser, its first argument that starts with
  the flag, and \<open>portArg?.split("=")[1]\<close>. \<open>None\<close> is \<open>undefined\<close>.
\<close>

definition group_port :: "ProcessGroup \<Rightarrow> string option" where
  "group_port grp =
     (case find is_browser (processes grp) of
        None \<Rightarrow> None
      | Some browser \<Rightarrow>
          (case find (\<lambda>a. startsWith a debug_port_flag) (cmd_args browser) of
             None \<Rightarrow> None
           | Some portArg \<Rightarrow>
               (let parts = split_on CHR ''='' portArg
                in if 1 < length parts then Some (parts ! 1) else None)))"

text \<open>Lines 227-231.\<close>

definition hasRemoteDebugging :: "ProcessGroup \<Rightarrow> bool" where
  "hasRemoteDebugging grp =
     (case find is_browser (processes grp) of
        None \<Rightarrow> False
      | Some browser \<Rightarrow> list_ex (\<lambda>a. startsWith a debug_port_flag) (cmd_args browser))"

text \<open>
  The property read \<open>portMap[port]\<close>. The answer is a plain object, so the read finds
  the own keys of the answer and, for any other name, the members that every object
  inherits from \<open>Object.prototype\<close>. An own key yields its entry array; an inherited
  name yields a function (or, for \<open>__proto__\<close>, the prototype object), which is truthy
  and is no array; every other name yields \<open>undefined\<close>.
\<close>

definition object_prototype_members :: "string list" where
  "object_prototype_members =
     [''constructor'', ''__proto__'', ''__defineGetter__'', ''__defineSetter__'',
      ''__lookupGetter__'', ''__lookupSetter__'', ''hasOwnProperty'', ''isPrototypeOf'',
      ''propertyIsEnumerable'', ''toLocaleString'', ''toString'', ''valueOf'']"

datatype port_value = Undefined | Pages "CdpPage list" | Inherited

definition port_lookup :: "PortMap \<Rightarrow> string \<Rightarrow> port_value" where
  "port_lookup portMap port =
     (case map_of portMap port of
        Some pages \<Rightarrow> Pages pages
      | None \<Rightarrow> if port \<in> set object_prototype_members then Inherited else Undefined)"

text \<open>An exception thrown by the JavaScript engine.\<close>

datatype js_error = TypeError

text \<open>Lines 123-136: the merge of one group with the entry array of its port.\<close>

definition merge_group :: "CdpPage list \<Rightarrow> ProcessGroup \<Rightarrow> ProcessGroup updated" where
  "merge_group pages grp =
     (let results = map (patch_proc pages) (processes grp);
          groupChanged = list_ex is_fresh results;
          updatedProcesses = map2 resolve (processes grp) results
      in if \<not> groupChanged then Same
         else Fresh (grp\<lparr>processes := updatedProcesses\<rparr>))"

text \<open>
  Lines 116-137 for one group; the test \<open>!browser\<close> is the first case of
  \<open>group_port\<close>. \<open>!port\<close> holds for \<open>undefined\<close> and for the empty string;
  \<open>!portMap[port]\<close> holds only when the read yields \<open>undefined\<close>. When the read
  yields an inherited member the guard lets it pass, and the first \<open>pages.find\<close>
  throws a TypeError, since the member has no \<open>find\<close>; the group has at least one
  member there, the browser that gave the port.
\<close>

definition patch_group :: "PortMap \<Rightarrow> ProcessGroup \<Rightarrow> js_error + ProcessGroup updated" where
  "patch_group portMap grp =
     (case group_port grp of
        None \<Rightarrow> Inr Same
      | Some port \<Rightarrow>
          if port = [] then Inr Same
          else (case port_lookup portMap port of
                  Undefined \<Rightarrow> Inr Same
                | Inherited \<Rightarrow> Inl TypeError
                | Pages pages \<Rightarrow> Inr (merge_group pages grp)))"

text \<open>\<open>prev.map(...)\<close> of line 116: the first group that throws ends the whole map.\<close>

fun patch_groups :: "PortMap \<Rightarrow> ProcessGroup list \<Rightarrow> js_error + ProcessGroup updated list" where
  "patch_groups portMap [] = Inr []"
| "patch_groups portMap (g # gs) =
     (case patch_group portMap g of
        Inl e \<Rightarrow> Inl e
      | Inr r \<Rightarrow> (case patch_groups portMap gs of Inl e \<Rightarrow> Inl e | Inr rs \<Rightarrow> Inr (r # rs)))"

text \<open>The updater of lines 114-139: \<open>changed ? next : prev\<close>.\<close>

definition cdp_update :: "PortMap \<Rightarrow> ProcessGroup list \<Rightarrow> js_error + ProcessGroup list updated" where
  "cdp_update portMap prev =
     (case patch_groups portMap prev of
        Inl e \<Rightarrow> Inl e
      | Inr results \<Rightarrow>
          (let changed = list_ex is_fresh results;
               next = map2 resolve prev results
           in Inr (if changed then Fresh next else Same)))"

text \<open>The list that the updater hands to React, when it returns.\<close>

definition apply_cdp :: "PortMap \<Rightarrow> ProcessGroup list \<Rightarrow> js_error + ProcessGroup list" where
  "apply_cdp portMap prev = map_sum id (resolve prev) (cdp_update portMap prev)"

section \<open>The component state and the steps of refresh\<close>

text \<open>
  The React state of the tab that refresh touches, and the console as the list of lines
  written with \<open>console.error\<close>.
\<close>

record TabState =
  groups :: "ProcessGroup list"
  loading :: bool
  expandedGroups :: "nat set"
  statusMsg :: string
  console :: "string list"

definition initial_state :: TabState where
  "initial_state = \<lparr>groups = [], loading = True, expandedGroups = {}, statusMsg = [], console = []\<rparr>"

text \<open>
  The promise of \<open>get_cdp_urls\<close> rejects, or resolves with a value that may be null
  (\<open>!portMap\<close>) or an object.
\<close>

datatype cdp_outcome = CdpRejected | CdpResolved "PortMap option"

text \<open>
  An exception thrown inside a state updater is not caught by the \<open>.catch\<close> of the
  promise: React runs the updater while rendering, and the uncaught error takes the
  component down. A step therefore yields either the next state or the error, and a run
  ends at the first error.
\<close>

text \<open>
  refresh runs in pieces separated by its awaits. \<open>Begin\<close> is line 83. \<open>Snapshot\<close> is
  the settlement of \<open>get_edge_processes\<close>: on a value, lines 87-110 and 144; on a
  rejection with an error text, lines 141-144. \<open>CdpSettled\<close> is the settlement of
  \<open>get_cdp_urls\<close>; its number is the count of the refresh that issued the request. The
  program keeps no such count: the number is bookkeeping of the trace only.
\<close>

datatype event =
    Begin bool
  | Snapshot bool "string + ProcessGroup list"
  | CdpSettled nat cdp_outcome

definition finish_loading :: "bool \<Rightarrow> TabState \<Rightarrow> TabState" where
  "finish_loading showLoading st = (if showLoading then st\<lparr>loading := False\<rparr> else st)"

definition publish :: "bool \<Rightarrow> ProcessGroup list \<Rightarrow> TabState \<Rightarrow> TabState" where
  "publish showLoading data st =
     (let st1 = st\<lparr>groups := carry_forward (groups st) data\<rparr>
      in if showLoading
         then st1\<lparr>expandedGroups :=
                    set (map browser_pid (filter (\<lambda>g. group_instance_type g \<noteq> ''WebView2'') data))\<rparr>
         else st1)"

fun cdp_settled :: "cdp_outcome \<Rightarrow> TabState \<Rightarrow> js_error + TabState" where
  "cdp_settled CdpRejected st = Inr st"
| "cdp_settled (CdpResolved None) st = Inr st"
| "cdp_settled (CdpResolved (Some portMap)) st =
     (if portMap = [] then Inr st
      else map_sum id (\<lambda>gs. st\<lparr>groups := gs\<rparr>) (apply_cdp portMap (groups st)))"

fun step :: "TabState \<Rightarrow> event \<Rightarrow> js_error + TabState" where
  "step st (Begin showLoading) = Inr (if showLoading then st\<lparr>loading := True\<rparr> else st)"
| "step st (Snapshot showLoading (Inr data)) =
     Inr (finish_loading showLoading (publish showLoading data st))"
| "step st (Snapshot showLoading (Inl err)) =
     Inr (finish_loading showLoading
            (st\<lparr>console := console st @ [''Failed to get processes: '' @ err]\<rparr>))"
| "step st (CdpSettled n outcome) = cdp_settled outcome st"

fun run :: "TabState \<Rightarrow> event list \<Rightarrow> js_error + TabState" where
  "run st [] = Inr st"
| "run st (ev # evs) = (case step st ev of Inl e \<Rightarrow> Inl e | Inr st' \<Rightarrow> run st' evs)"

text \<open>A part of the state after a step or a run, when there is a state.\<close>

definition view :: "(TabState \<Rightarrow> 'a) \<Rightarrow> js_error + TabState \<Rightarrow> js_error + 'a" where
  "view f r = map_sum id f r"

text \<open>The status card is rendered under \<open>statusMsg && ...\<close>.\<close>

definition status_visible :: "TabState \<Rightarrow> bool" where
  "status_visible st = (statusMsg st \<noteq> [])"

section \<open>Derived notions used to state the properties\<close>

text \<open>
  What the merge reads for a group: nothing when the group yields no port or an empty
  one, else the value of \<open>portMap[port]\<close>.
\<close>

definition group_lookup :: "PortMap \<Rightarrow> ProcessGroup \<Rightarrow> port_value" where
  "group_lookup portMap grp =
     (case group_port grp of
        None \<Rightarrow> Undefined
      | Some port \<Rightarrow> if port = [] then Undefined else port_lookup portMap port)"

text \<open>The entry list that the merge consults for a group, when the read yields one.\<close>

definition group_pages :: "PortMap \<Rightarrow> ProcessGroup \<Rightarrow> CdpPage list option" where
  "group_pages portMap grp =
     (case group_lookup portMap grp of Pages pages \<Rightarrow> Some pages | Undefined \<Rightarrow> None | Inherited \<Rightarrow> None)"

text \<open>The merge of the group throws: the read yields an inherited member.\<close>

definition merge_throws :: "PortMap \<Rightarrow> ProcessGroup \<Rightarrow> bool" where
  "merge_throws portMap grp = (group_lookup portMap grp = Inherited)"

text \<open>The port text of the group names a member inherited from \<open>Object.prototype\<close>.\<close>

definition inherited_port :: "ProcessGroup \<Rightarrow> bool" where
  "inherited_port grp =
     (case group_port grp of None \<Rightarrow> False | Some port \<Rightarrow> port \<in> set object_prototype_members)"

text \<open>No snapshot of the event brings a group with such a port text.\<close>

fun plain_ports :: "event \<Rightarrow> bool" where
  "plain_ports (Snapshot showLoading (Inr data)) = (\<not> list_ex inherited_port data)"
| "plain_ports ev = True"

text \<open>The value of a record after the merge, given the entry list of its group.\<close>

fun merge_proc :: "CdpPage list option \<Rightarrow> ProcessInfo \<Rightarrow> ProcessInfo" where
  "merge_proc None proc = proc"
| "merge_proc (Some pages) proc = resolve proc (patch_proc pages proc)"

text \<open>The value of a group, and of a list, after a merge that returns.\<close>

definition merged_group :: "PortMap \<Rightarrow> ProcessGroup \<Rightarrow> ProcessGroup" where
  "merged_group portMap grp =
     grp\<lparr>processes := map (merge_proc (group_pages portMap grp)) (processes grp)\<rparr>"

definition merged_groups :: "PortMap \<Rightarrow> ProcessGroup list \<Rightarrow> ProcessGroup list" where
  "merged_groups portMap prev = map (merged_group portMap) prev"

text \<open>All process ids named by some entry of the answer.\<close>

definition page_pids :: "PortMap \<Rightarrow> nat list" where
  "page_pids portMap = List.map_filter process_id (concat (map snd portMap))"

text \<open>The answer without the entries whose process id is null.\<close>

definition drop_null_entries :: "PortMap \<Rightarrow> PortMap" where
  "drop_null_entries portMap =
     map (\<lambda>kv. (fst kv, filter (\<lambda>e. process_id e \<noteq> None) (snd kv))) portMap"

text \<open>A record and a group with the two debug fields blanked.\<close>

definition strip_debug_proc :: "ProcessInfo \<Rightarrow> ProcessInfo" where
  "strip_debug_proc p = p\<lparr>url := [], cdp_target_type := []\<rparr>"

definition strip_debug :: "ProcessGroup \<Rightarrow> ProcessGroup" where
  "strip_debug g = g\<lparr>processes := map strip_debug_proc (processes g)\<rparr>"

text \<open>
  The first entry that names the pid of a record, in the list consulted for its group.
\<close>

definition first_entry_for :: "PortMap \<Rightarrow> ProcessGroup \<Rightarrow> ProcessInfo \<Rightarrow> CdpPage option" where
  "first_entry_for portMap grp proc =
     (case group_pages portMap grp of
        None \<Rightarrow> None
      | Some pages \<Rightarrow> find (\<lambda>e. process_id e = Some (pid proc)) pages)"

text \<open>A record carries the values of an entry.\<close>

definition carries_entry :: "ProcessInfo \<Rightarrow> CdpPage \<Rightarrow> bool" where
  "carries_entry proc e = (url proc = page_url e \<and> cdp_target_type proc = target_text e)"

text \<open>
  An entry names a record within the list consulted for the group of the record.
\<close>

definition entry_names_record :: "PortMap \<Rightarrow> ProcessGroup \<Rightarrow> ProcessInfo \<Rightarrow> CdpPage \<Rightarrow> bool" where
  "entry_names_record portMap grp proc e =
     (case group_pages portMap grp of
        None \<Rightarrow> False
      | Some pages \<Rightarrow> e \<in> set pages \<and> process_id e = Some (pid proc))"

text \<open>
  Refresh cycles are counted by the group lists published so far; the request of cycle
  \<open>n\<close> is stale once more than \<open>n\<close> lists have been published.
\<close>

fun publishes :: "event \<Rightarrow> bool" where
  "publishes (Snapshot showLoading (Inr data)) = True"
| "publishes ev = False"

definition published_count :: "event list \<Rightarrow> nat" where
  "published_count evs = length (filter publishes evs)"

definition stale :: "event list \<Rightarrow> nat \<Rightarrow> bool" where
  "stale evs n = (n < published_count evs)"

text \<open>
  The list has a record with pid \<open>p\<close>, and every record with pid \<open>p\<close> has the debug
  url \<open>u\<close> and the target type \<open>t\<close>.
\<close>

definition holds_debug :: "nat \<Rightarrow> string \<Rightarrow> string \<Rightarrow> ProcessGroup list \<Rightarrow> bool" where
  "holds_debug p u t gs =
     (p \<in> set (pids_of gs) \<and>
      list_all (\<lambda>r. pid r = p \<longrightarrow> url r = u \<and> cdp_target_type r = t) (all_procs gs))"

text \<open>
  An event that brings no debug data for pid \<open>p\<close> and keeps \<open>p\<close> in the snapshot.
\<close>

fun quiet_for :: "nat \<Rightarrow> event \<Rightarrow> bool" where
  "quiet_for p (Begin showLoading) = True"
| "quiet_for p (Snapshot showLoading (Inl err)) = True"
| "quiet_for p (Snapshot showLoading (Inr data)) = (p \<in> set (pids_of data))"
| "quiet_for p (CdpSettled n CdpRejected) = True"
| "quiet_for p (CdpSettled n (CdpResolved None)) = True"
| "quiet_for p (CdpSettled n (CdpResolved (Some portMap))) = (p \<notin> set (page_pids portMap))"

section \<open>The display sort (sortProcesses, lines 201-215)\<close>

text \<open>
  \<open>toLowerCase\<close> on the ASCII letters; no other character lowers to a letter of the
  five keys of \<open>typeOrder\<close>. \<open>.replace(/\(s\)$/, "")\<close> removes one trailing
  \<open>(s)\<close>.
\<close>

definition toLowerCase_char :: "char \<Rightarrow> char" where
  "toLowerCase_char c =
     (case map_of (zip ''ABCDEFGHIJKLMNOPQRSTUVWXYZ'' ''abcdefghijklmnopqrstuvwxyz'') c of
        Some d \<Rightarrow> d
      | None \<Rightarrow> c)"

definition toLowerCase :: "string \<Rightarrow> string" where
  "toLowerCase s = map toLowerCase_char s"

definition strip_plural :: "string \<Rightarrow> string" where
  "strip_plural s =
     (if 3 \<le> length s \<and> drop (length s - 3) s = ''(s)'' then take (length s - 3) s else s)"

definition typeOrder :: "(string \<times> nat) list" where
  "typeOrder = [(''browser'', 0), (''renderer'', 1), (''gpu'', 2), (''crashpad'', 3), (''utility'', 4)]"

text \<open>
  \<open>typeOrder[...] ?? 99\<close>, for the five keys the object literal itself has. The
  process type is one of the role names the backend emits; the two lower-case names that
  every object inherits (\<open>constructor\<close> and \<open>__proto__\<close>) are not among them.
\<close>

definition order_of :: "ProcessInfo \<Rightarrow> nat" where
  "order_of a =
     (case map_of typeOrder (strip_plural (toLowerCase (process_type a))) of
        Some n \<Rightarrow> n
      | None \<Rightarrow> 99)"

text \<open>
  \<open>[...procs].sort((a, b) => aOrder - bOrder)\<close>: the comparator compares the two
  keys, and \<open>Array.prototype.sort\<close> is stable, so the result is the stable sort of a
  copy by the key.
\<close>

definition sortProcesses :: "ProcessInfo list \<Rightarrow> ProcessInfo list" where
  "sortProcesses procs = sort_key order_of procs"

text \<open>
  The precedence in the words of the specification: Browser, Renderer, Extension, GPU,
  Crashpad, Utility, then Unknown; ties by ascending pid.
\<close>

definition spec_rank :: "ProcessInfo \<Rightarrow> nat" where
  "spec_rank p =
     (if process_type p = ''Browser'' then 0
      else if process_type p = ''Renderer'' then 1
      else if process_type p = ''Extension'' then 2
      else if process_type p = ''GPU'' then 3
      else if process_type p = ''Crashpad'' then 4
      else if process_type p = ''Utility'' then 5
      else 6)"

definition spec_display_sorted :: "ProcessInfo list \<Rightarrow> bool" where
  "spec_display_sorted ps =
     sorted_wrt (\<lambda>a b. spec_rank a < spec_rank b \<or> (spec_rank a = spec_rank b \<and> pid a \<le> pid b)) ps"

text \<open>The roles of the data model other than Extension.\<close>

definition roles_without_extension :: "string list" where
  "roles_without_extension = [''Browser'', ''Renderer'', ''GPU'', ''Crashpad'', ''Utility'', ''Unknown'']"

section \<open>The Group Builder\<close>

text \<open>
  Modelled from the spec: the Group Builder \<open>build_groups\<close> behind the command
  \<open>get_edge_processes\<close> is part of the native backend, which is not among the sources;
  only its caller in ProcessesTab.tsx is. The definitions follow section 4.2 of the
  specification: index the records by pid; from each record walk the parent pids
  upward, at most as many steps as there are records, until a record of role Browser is
  reached or the chain breaks; gather the records whose walk ends at the same Browser
  pid into one group anchored there, roots in ascending pid order. Channel and host
  application come from the classifier, which is taken as the parameters
  \<open>channel_of\<close> and \<open>host_of\<close>.
\<close>

definition index_by_pid :: "ProcessInfo list \<Rightarrow> (nat \<rightharpoonup> ProcessInfo)" where
  "index_by_pid ps = map_of (map (\<lambda>p. (pid p, p)) ps)"

fun walk :: "(nat \<rightharpoonup> ProcessInfo) \<Rightarrow> nat \<Rightarrow> ProcessInfo \<Rightarrow> nat option" where
  "walk idx 0 p = (if is_browser p then Some (pid p) else None)"
| "walk idx (Suc fuel) p =
     (if is_browser p then Some (pid p)
      else (case parent_pid p of
              None \<Rightarrow> None
            | Some q \<Rightarrow> (case idx q of None \<Rightarrow> None | Some parent \<Rightarrow> walk idx fuel parent)))"

definition root_of :: "ProcessInfo list \<Rightarrow> ProcessInfo \<Rightarrow> nat option" where
  "root_of ps p = walk (index_by_pid ps) (length ps) p"

definition root_pids :: "ProcessInfo list \<Rightarrow> nat list" where
  "root_pids ps = sort (remdups (map pid (filter is_browser ps)))"

definition make_group ::
  "(ProcessInfo \<Rightarrow> string) \<Rightarrow> (ProcessInfo \<Rightarrow> string) \<Rightarrow> ProcessInfo list \<Rightarrow> nat \<Rightarrow> ProcessGroup list" where
  "make_group channel_of host_of ps r =
     (case find (\<lambda>p. is_browser p \<and> pid p = r) ps of
        None \<Rightarrow> []
      | Some rootp \<Rightarrow>
          [\<lparr>browser_pid = r,
            browser_exe = exe_path rootp,
            channel = channel_of rootp,
            group_instance_type = instance_type rootp,
            host_app = (if instance_type rootp = ''WebView2'' then host_of rootp else []),
            processes = filter (\<lambda>p. root_of ps p = Some r) ps\<rparr>])"

definition build_groups ::
  "(ProcessInfo \<Rightarrow> string) \<Rightarrow> (ProcessInfo \<Rightarrow> string) \<Rightarrow> ProcessInfo list \<Rightarrow> ProcessGroup list" where
  "build_groups channel_of host_of ps = concat (map (make_group channel_of host_of ps) (root_pids ps))"

section \<open>The port discovery of the Correlator\<close>

text \<open>
  Modelled from the spec: the command \<open>get_cdp_urls\<close> is called without arguments at
  line 111, and the discovery of the ports it queries is part of the native backend,
  which is not among the sources. The definitions follow section 4.3, steps 1 and 2, of
  the specification: for each group the command line of the Browser-role root (the
  member of role Browser whose pid is the root pid) is inspected for the debugging-port
  flag; a group without it is not queried; one query is issued for each distinct port
  found.
\<close>

definition declares_debug_port :: "ProcessInfo \<Rightarrow> bool" where
  "declares_debug_port p = list_ex (\<lambda>a. startsWith a debug_port_flag) (cmd_args p)"

definition group_root :: "ProcessGroup \<Rightarrow> ProcessInfo option" where
  "group_root grp = find (\<lambda>p. is_browser p \<and> pid p = browser_pid grp) (processes grp)"

definition root_declares_port :: "ProcessGroup \<Rightarrow> bool" where
  "root_declares_port grp =
     (case group_root grp of None \<Rightarrow> False | Some rootp \<Rightarrow> declares_debug_port rootp)"

definition query_port :: "ProcessGroup \<Rightarrow> string option" where
  "query_port grp =
     (case group_root grp of
        None \<Rightarrow> None
      | Some rootp \<Rightarrow>
          (case find (\<lambda>a. startsWith a debug_port_flag) (cmd_args rootp) of
             None \<Rightarrow> None
           | Some portArg \<Rightarrow> Some (drop (length debug_port_flag) portArg)))"

definition queried_ports :: "ProcessGroup list \<Rightarrow> string list" where
  "queried_ports gs = remdups (List.map_filter query_port gs)"

section \<open>Sample inputs\<close>

text \<open>
  The scenario of the specification: a browser with pid 100 that declares the debugging
  port 9222, its renderer with pid 101, and an answer of the debug endpoint that names
  pid 101.
\<close>

definition sample_proc :: "nat \<Rightarrow> nat option \<Rightarrow> string \<Rightarrow> string list \<Rightarrow> ProcessInfo" where
  "sample_proc i par ty args =
     \<lparr>pid = i, parent_pid = par, name = ''msedge.exe'', exe_path = ''C:/Edge SxS/msedge.exe'',
      cmd_args = args, process_type = ty, memory_mb = 0, cpu_percent = 0,
      url = [], cdp_target_type = [], instance_type = ''Canary''\<rparr>"

definition sample_browser :: ProcessInfo where
  "sample_browser = sample_proc 100 None ''Browser'' [''msedge.exe'', ''--remote-debugging-port=9222'']"

definition sample_renderer :: ProcessInfo where
  "sample_renderer = sample_proc 101 (Some 100) ''Renderer'' [''msedge.exe'', ''--type=renderer'']"

definition sample_group :: ProcessGroup where
  "sample_group =
     \<lparr>browser_pid = 100, browser_exe = ''C:/Edge SxS/msedge.exe'', channel = ''Canary'',
      group_instance_type = ''Canary'', host_app = [],
      processes = [sample_browser, sample_renderer]\<rparr>"

definition sample_page :: CdpPage where
  "sample_page = \<lparr>process_id = Some 101, page_url = ''https://example.com'', target_type = Some ''page''\<rparr>"

definition sample_portMap :: PortMap where
  "sample_portMap = [(''9222'', [sample_page])]"

text \<open>An answer in which two entries name pid 101, as two targets of one renderer do.\<close>

definition sample_page_a :: CdpPage where
  "sample_page_a = \<lparr>process_id = Some 101, page_url = ''https://a.example'', target_type = Some ''page''\<rparr>"

definition sample_page_b :: CdpPage where
  "sample_page_b = \<lparr>process_id = Some 101, page_url = ''https://b.example'', target_type = Some ''iframe''\<rparr>"

definition sample_portMap_two :: PortMap where
  "sample_portMap_two = [(''9222'', [sample_page_a, sample_page_b])]"

text \<open>An answer for another port, and a group whose browser declares no debugging port.\<close>

definition sample_portMap_other :: PortMap where
  "sample_portMap_other = [(''9333'', [sample_page])]"

definition sample_plain_group :: ProcessGroup where
  "sample_plain_group =
     \<lparr>browser_pid = 200, browser_exe = ''C:/Edge/msedge.exe'', channel = ''Stable'',
      group_instance_type = ''Stable'', host_app = [],
      processes = [sample_proc 200 None ''Browser'' [''msedge.exe''],
                   sample_proc 101 (Some 200) ''Renderer'' [''msedge.exe'', ''--type=renderer'']]\<rparr>"

text \<open>The sample group after the sample answer has been merged.\<close>

definition sample_group_patched :: ProcessGroup where
  "sample_group_patched =
     sample_group\<lparr>processes :=
       [sample_browser, sample_renderer\<lparr>url := ''https://example.com'', cdp_target_type := ''page''\<rparr>]\<rparr>"

text \<open>
  Two refresh cycles that both find the sample group, and an answer that names a pid
  (555) which is in no group.
\<close>

definition sample_two_cycles :: "event list" where
  "sample_two_cycles =
     [Begin True, Snapshot True (Inr [sample_group]), Begin False, Snapshot False (Inr [sample_group])]"

definition sample_portMap_gone :: PortMap where
  "sample_portMap_gone =
     [(''9222'', [\<lparr>process_id = Some 555, page_url = ''https://gone.example'', target_type = None\<rparr>])]"

text \<open>
  Two further cycles in which the debug endpoint brings nothing for pid 101: the first
  request is rejected, the second answers for pid 555 only.
\<close>

definition sample_quiet_cycles :: "event list" where
  "sample_quiet_cycles =
     [Begin False, Snapshot False (Inr [sample_group]), CdpSettled 1 CdpRejected,
      Begin False, Snapshot False (Inr [sample_group]),
      CdpSettled 2 (CdpResolved (Some sample_portMap_gone))]"

text \<open>Two renderers listed with the higher pid first.\<close>

definition sample_renderers :: "ProcessInfo list" where
  "sample_renderers =
     [sample_proc 2 (Some 1) ''Renderer'' [''msedge.exe'', ''--type=renderer''],
      sample_proc 1 (Some 1) ''Renderer'' [''msedge.exe'', ''--type=renderer'']]"

text \<open>
  The snapshot of the first scenario of the specification: a browser 100, its renderer
  101, and a helper 102 whose parent 999 is not in the snapshot.
\<close>

definition sample_helper :: ProcessInfo where
  "sample_helper = sample_proc 102 (Some 999) ''Utility'' [''helper.exe'', ''--type=utility'']"

definition sample_snapshot :: "ProcessInfo list" where
  "sample_snapshot = [sample_browser, sample_renderer, sample_helper]"

text \<open>An extension process and a GPU process, in the order of the documented precedence.\<close>

definition sample_extension_gpu :: "ProcessInfo list" where
  "sample_extension_gpu =
     [sample_proc 7 (Some 1) ''Extension'' [''msedge.exe'', ''--type=renderer'', ''--extension-process''],
      sample_proc 8 (Some 1) ''GPU'' [''msedge.exe'', ''--type=gpu-process'']]"

text \<open>
  A browser started with the flag value \<open>constructor\<close>, which names a member that every
  object inherits.
\<close>

definition sample_named_group :: ProcessGroup where
  "sample_named_group =
     \<lparr>browser_pid = 300, browser_exe = ''C:/Edge/msedge.exe'', channel = ''Stable'',
      group_instance_type = ''Stable'', host_app = [],
      processes = [sample_proc 300 None ''Browser''
                     [''msedge.exe'', ''--remote-debugging-port=constructor'']]\<rparr>"

definition sample_named_run :: "event list" where
  "sample_named_run =
     [Begin True, Snapshot True (Inr [sample_named_group]),
      CdpSettled 1 (CdpResolved (Some sample_portMap))]"

lemmas sample_defs =
  sample_proc_def sample_browser_def sample_renderer_def sample_group_def sample_page_def
  sample_portMap_def sample_named_group_def sample_named_run_def
  sample_extension_gpu_def
  sample_renderers_def sample_helper_def sample_snapshot_def
  sample_two_cycles_def sample_portMap_gone_def sample_quiet_cycles_def
  sample_page_a_def sample_page_b_def sample_portMap_two_def sample_portMap_other_def sample_plain_group_def sample_group_patched_def

section \<open>Properties of the merge of debug targets\<close>

lemma map2_resolve: "map2 resolve xs (map f xs) = map (\<lambda>x. resolve x (f x)) xs"
  by (induction xs) auto

lemma list_ex_fresh_map: "list_ex is_fresh (map f xs) \<longleftrightarrow> (\<exists>x\<in>set xs. f x \<noteq> Same)"
proof (induction xs)
  case Nil
  show ?case by simp
next
  case (Cons x xs)
  show ?case using Cons by (cases "f x") auto
qed

lemma resolve_patch_proc:
  "resolve proc (patch_proc pages proc) =
     (case find (pid_matches proc) pages of
        None \<Rightarrow> proc
      | Some m \<Rightarrow> proc\<lparr>url := page_url m, cdp_target_type := target_text m\<rparr>)"
  by (cases proc) (auto simp: patch_proc_def split: option.splits)

lemma patch_proc_Same_iff: "patch_proc pages proc = Same \<longleftrightarrow> resolve proc (patch_proc pages proc) = proc"
proof (cases "find (pid_matches proc) pages")
  case None
  then show ?thesis by (simp add: patch_proc_def)
next
  case (Some m)
  show ?thesis
  proof (cases "page_url m \<noteq> url proc \<or> target_text m \<noteq> cdp_target_type proc")
    case True
    have "proc\<lparr>url := page_url m, cdp_target_type := target_text m\<rparr> \<noteq> proc"
    proof
      assume eq: "proc\<lparr>url := page_url m, cdp_target_type := target_text m\<rparr> = proc"
      have "url (proc\<lparr>url := page_url m, cdp_target_type := target_text m\<rparr>) = page_url m"
        and "cdp_target_type (proc\<lparr>url := page_url m, cdp_target_type := target_text m\<rparr>) = target_text m"
        by simp_all
      with eq have "url proc = page_url m" "cdp_target_type proc = target_text m" by simp_all
      with True show False by auto
    qed
    with Some True show ?thesis by (simp add: patch_proc_def)
  next
    case False
    with Some show ?thesis by (simp add: patch_proc_def)
  qed
qed

lemma map_id_iff: "map f xs = xs \<longleftrightarrow> (\<forall>x\<in>set xs. f x = x)"
  by (induction xs) auto

lemma map_merge_proc_None: "map (merge_proc None) ps = ps"
  by (induction ps) auto

lemma merge_proc_id: "(\<forall>p\<in>set ps. merge_proc pg p = p) \<Longrightarrow> map (merge_proc pg) ps = ps"
  by (induction ps) auto

lemma merge_proc_eq:
  "merge_proc pg p =
     (case pg of
        None \<Rightarrow> p
      | Some pages \<Rightarrow>
          (case find (pid_matches p) pages of
             None \<Rightarrow> p
           | Some m \<Rightarrow> p\<lparr>url := page_url m, cdp_target_type := target_text m\<rparr>))"
  by (cases pg) (simp_all add: resolve_patch_proc)

lemma merge_proc_fields:
  "pid (merge_proc pg p) = pid p"
  "process_type (merge_proc pg p) = process_type p"
  "cmd_args (merge_proc pg p) = cmd_args p"
  by (simp_all add: merge_proc_eq split: option.splits)

lemma strip_merge_proc: "strip_debug_proc (merge_proc pg p) = strip_debug_proc p"
  by (simp add: merge_proc_eq strip_debug_proc_def split: option.splits)

lemma merge_group_eq:
  "merge_group pages grp =
     (if \<exists>p\<in>set (processes grp). patch_proc pages p \<noteq> Same
      then Fresh (grp\<lparr>processes := map (merge_proc (Some pages)) (processes grp)\<rparr>)
      else Same)"
  by (simp add: merge_group_def Let_def map2_resolve list_ex_fresh_map)

lemma resolve_merge_group:
  "resolve grp (merge_group pages grp) =
     grp\<lparr>processes := map (merge_proc (Some pages)) (processes grp)\<rparr>"
proof (cases "\<exists>p\<in>set (processes grp). patch_proc pages p \<noteq> Same")
  case True
  then show ?thesis by (simp add: merge_group_eq)
next
  case False
  then have "\<forall>p\<in>set (processes grp). merge_proc (Some pages) p = p"
    by (simp add: patch_proc_Same_iff)
  then have "map (merge_proc (Some pages)) (processes grp) = processes grp"
    by (rule merge_proc_id)
  with False show ?thesis by (simp add: merge_group_eq)
qed

lemma merge_group_Same_iff:
  "merge_group pages grp = Same \<longleftrightarrow> resolve grp (merge_group pages grp) = grp"
proof
  assume "merge_group pages grp = Same"
  then show "resolve grp (merge_group pages grp) = grp" by simp
next
  assume "resolve grp (merge_group pages grp) = grp"
  then have "processes (resolve grp (merge_group pages grp)) = processes grp" by simp
  then have "map (merge_proc (Some pages)) (processes grp) = processes grp"
    by (simp add: resolve_merge_group)
  then have "\<forall>p\<in>set (processes grp). merge_proc (Some pages) p = p"
    by (simp add: map_id_iff)
  then have "\<not> (\<exists>p\<in>set (processes grp). patch_proc pages p \<noteq> Same)"
    by (simp add: patch_proc_Same_iff)
  then show "merge_group pages grp = Same" by (simp add: merge_group_eq)
qed

lemma patch_group_lookup:
  "patch_group portMap grp =
     (case group_lookup portMap grp of
        Undefined \<Rightarrow> Inr Same
      | Inherited \<Rightarrow> Inl TypeError
      | Pages pages \<Rightarrow> Inr (merge_group pages grp))"
  by (simp add: patch_group_def group_lookup_def split: option.splits port_value.splits)

lemma patch_group_throws_iff: "patch_group portMap grp = Inl e \<longleftrightarrow> merge_throws portMap grp"
  by (cases e) (simp add: patch_group_lookup merge_throws_def split: port_value.splits)

lemma patch_group_Inr:
  assumes "patch_group portMap grp = Inr r"
  shows "resolve grp r = merged_group portMap grp" and "r = Same \<longleftrightarrow> merged_group portMap grp = grp"
proof -
  show "resolve grp r = merged_group portMap grp"
    using assms
    by (auto simp: patch_group_lookup merged_group_def group_pages_def resolve_merge_group
          map_merge_proc_None split: port_value.splits)
  then show "r = Same \<longleftrightarrow> merged_group portMap grp = grp"
    using assms
    by (auto simp: patch_group_lookup merge_group_Same_iff split: port_value.splits)
qed

lemma patch_group_returns:
  "\<not> merge_throws portMap grp \<Longrightarrow> \<exists>r. patch_group portMap grp = Inr r"
  by (simp add: patch_group_lookup merge_throws_def split: port_value.splits)

lemma patch_groups_Inr:
  "patch_groups portMap prev = Inr rs \<Longrightarrow>
   \<not> list_ex (merge_throws portMap) prev \<and> map2 resolve prev rs = merged_groups portMap prev \<and>
   (list_ex is_fresh rs \<longleftrightarrow> merged_groups portMap prev \<noteq> prev)"
proof (induction prev arbitrary: rs)
  case Nil
  then show ?case by (auto simp: merged_groups_def)
next
  case (Cons g gs)
  from Cons.prems obtain r rs' where r: "patch_group portMap g = Inr r"
    and rs': "patch_groups portMap gs = Inr rs'" and rs: "rs = r # rs'"
    by (auto split: sum.splits)
  from r have nt: "\<not> merge_throws portMap g"
    using patch_group_throws_iff [of portMap g TypeError] by simp
  have fr: "is_fresh r \<longleftrightarrow> merged_group portMap g \<noteq> g"
    using patch_group_Inr(2) [OF r] by (cases r) auto
  from Cons.IH [OF rs'] nt fr patch_group_Inr(1) [OF r] rs
  show ?case by (auto simp: merged_groups_def)
qed

lemma patch_groups_returns:
  "\<not> list_ex (merge_throws portMap) prev \<Longrightarrow> \<exists>rs. patch_groups portMap prev = Inr rs"
proof (induction prev)
  case Nil
  show ?case by simp
next
  case (Cons g gs)
  then obtain r rs where "patch_group portMap g = Inr r" "patch_groups portMap gs = Inr rs"
    using patch_group_returns [of portMap g] by auto
  then show ?case by simp
qed

lemma cdp_update_cases:
  "cdp_update portMap prev =
     (if list_ex (merge_throws portMap) prev then Inl TypeError
      else Inr (if merged_groups portMap prev = prev then Same
                else Fresh (merged_groups portMap prev)))"
proof (cases "patch_groups portMap prev")
  case (Inl e)
  then have "list_ex (merge_throws portMap) prev"
    using patch_groups_returns [of portMap prev] by auto
  with Inl show ?thesis by (cases e) (simp add: cdp_update_def)
next
  case (Inr rs)
  from patch_groups_Inr [OF Inr] Inr show ?thesis
    by (simp add: cdp_update_def Let_def)
qed

lemma apply_cdp_cases:
  "apply_cdp portMap prev =
     (if list_ex (merge_throws portMap) prev then Inl TypeError
      else Inr (merged_groups portMap prev))"
  by (simp add: apply_cdp_def cdp_update_cases)

lemma merge_throws_inherited: "merge_throws portMap grp \<Longrightarrow> inherited_port grp"
  by (auto simp: merge_throws_def group_lookup_def inherited_port_def port_lookup_def
           split: option.splits if_splits)

lemma list_ex_mono_pred: "list_ex P xs \<Longrightarrow> (\<And>x. P x \<Longrightarrow> Q x) \<Longrightarrow> list_ex Q xs"
  by (induction xs) auto

lemma apply_cdp_plain:
  "\<not> list_ex inherited_port prev \<Longrightarrow> apply_cdp portMap prev = Inr (merged_groups portMap prev)"
  using list_ex_mono_pred [of "merge_throws portMap" prev inherited_port]
  by (auto simp: apply_cdp_cases merge_throws_inherited)

lemma strip_merged_group: "strip_debug (merged_group portMap g) = strip_debug g"
  by (simp add: merged_group_def strip_debug_def strip_merge_proc)

lemma strip_merged_groups: "map strip_debug (merged_groups portMap prev) = map strip_debug prev"
  by (simp add: merged_groups_def strip_merged_group)

lemma merged_groups_proc_nth:
  "i < length prev \<Longrightarrow> j < length (processes (prev ! i)) \<Longrightarrow>
   processes (merged_groups portMap prev ! i) ! j =
     merge_proc (group_pages portMap (prev ! i)) (processes (prev ! i) ! j)"
  by (simp add: merged_groups_def merged_group_def)

lemma group_pages_in_portMap:
  "group_pages portMap g = Some pages \<Longrightarrow> pages \<in> set (map snd portMap)"
  by (auto simp: group_pages_def group_lookup_def port_lookup_def
           split: option.splits if_splits port_value.splits dest!: map_of_SomeD intro: rev_image_eqI)

lemma set_map_filter: "set (List.map_filter f xs) = {y. \<exists>x\<in>set xs. f x = Some y}"
  by (induction xs) (auto simp: map_filter_simps split: option.splits)

lemma set_page_pids:
  "set (page_pids portMap) = {n. \<exists>pages\<in>set (map snd portMap). \<exists>e\<in>set pages. process_id e = Some n}"
  unfolding page_pids_def set_map_filter by auto

lemma find_no_pid:
  "pages \<in> set (map snd portMap) \<Longrightarrow> pid p \<notin> set (page_pids portMap) \<Longrightarrow>
   find (pid_matches p) pages = None"
  by (auto simp: find_None_iff set_page_pids pid_matches_def split: option.splits)

lemma merge_proc_no_pid:
  "pid p \<notin> set (page_pids portMap) \<Longrightarrow> merge_proc (group_pages portMap g) p = p"
proof (cases "group_pages portMap g")
  case None
  then show ?thesis by simp
next
  case (Some pages)
  assume "pid p \<notin> set (page_pids portMap)"
  with Some have "find (pid_matches p) pages = None"
    by (intro find_no_pid group_pages_in_portMap)
  with Some show ?thesis by (simp add: merge_proc_eq)
qed

lemma find_cong_pred: "(\<And>x. x \<in> set xs \<Longrightarrow> P x = Q x) \<Longrightarrow> find P xs = find Q xs"
  by (induction xs) auto

lemma find_filter_weaker: "(\<And>x. P x \<Longrightarrow> Q x) \<Longrightarrow> find P (filter Q xs) = find P xs"
  by (induction xs) auto

lemma find_pid_matches_nonzero:
  "pid p \<noteq> 0 \<Longrightarrow> find (pid_matches p) pages = find (\<lambda>e. process_id e = Some (pid p)) pages"
  by (rule find_cong_pred) (auto simp: pid_matches_def split: option.splits)

lemma merge_proc_first_entry:
  "pid p \<noteq> 0 \<Longrightarrow>
   merge_proc (group_pages portMap g) p =
     (case first_entry_for portMap g p of
        None \<Rightarrow> p
      | Some e \<Rightarrow> p\<lparr>url := page_url e, cdp_target_type := target_text e\<rparr>)"
  by (simp add: merge_proc_eq first_entry_for_def find_pid_matches_nonzero split: option.splits)

lemma patch_proc_drop_null: "patch_proc (filter (\<lambda>e. process_id e \<noteq> None) pages) p = patch_proc pages p"
proof -
  have "find (pid_matches p) (filter (\<lambda>e. process_id e \<noteq> None) pages) = find (pid_matches p) pages"
    by (rule find_filter_weaker) (auto simp: pid_matches_def split: option.splits)
  then show ?thesis by (simp add: patch_proc_def del: not_None_eq)
qed

lemma map_of_drop_null:
  "map_of (drop_null_entries portMap) port =
     map_option (filter (\<lambda>e. process_id e \<noteq> None)) (map_of portMap port)"
  by (induction portMap) (auto simp: drop_null_entries_def)

lemma port_lookup_drop_null:
  "port_lookup (drop_null_entries portMap) port =
     (case port_lookup portMap port of
        Pages pages \<Rightarrow> Pages (filter (\<lambda>e. process_id e \<noteq> None) pages)
      | Undefined \<Rightarrow> Undefined
      | Inherited \<Rightarrow> Inherited)"
  by (simp add: port_lookup_def map_of_drop_null del: not_None_eq split: option.splits)

lemma merge_group_drop_null:
  "merge_group (filter (\<lambda>e. process_id e \<noteq> None) pages) g = merge_group pages g"
proof -
  have "(\<lambda>p. patch_proc (filter (\<lambda>e. process_id e \<noteq> None) pages) p) = patch_proc pages"
    by (rule ext) (rule patch_proc_drop_null)
  then show ?thesis by (simp add: merge_group_def del: not_None_eq)
qed

lemma patch_group_drop_null: "patch_group (drop_null_entries portMap) g = patch_group portMap g"
  by (simp add: patch_group_def port_lookup_drop_null merge_group_drop_null del: not_None_eq
           split: option.splits port_value.splits)

lemma patch_groups_drop_null: "patch_groups (drop_null_entries portMap) prev = patch_groups portMap prev"
  by (induction prev) (simp_all add: patch_group_drop_null split: sum.splits)

lemma cdp_update_drop_null: "cdp_update (drop_null_entries portMap) prev = cdp_update portMap prev"
  by (simp add: cdp_update_def patch_groups_drop_null)

lemma drop_null_Nil_iff: "drop_null_entries portMap = [] \<longleftrightarrow> portMap = []"
  by (simp add: drop_null_entries_def)

lemma find_None_list_ex: "find P xs = None \<longleftrightarrow> \<not> list_ex P xs"
  by (induction xs) auto

lemma group_port_None: "\<not> hasRemoteDebugging g \<Longrightarrow> group_port g = None"
proof (cases "find is_browser (processes g)")
  case None
  then show ?thesis by (simp add: group_port_def)
next
  case (Some browser)
  assume "\<not> hasRemoteDebugging g"
  with Some have "find (\<lambda>a. startsWith a debug_port_flag) (cmd_args browser) = None"
    by (simp add: hasRemoteDebugging_def find_None_list_ex)
  with Some show ?thesis by (simp add: group_port_def)
qed

lemma patch_proc_Nil: "patch_proc [] p = Same"
  by (simp add: patch_proc_def)

lemma merge_group_Nil: "merge_group [] g = Same"
  by (simp add: merge_group_eq patch_proc_Nil)

lemma find_map_pres: "(\<And>x. P (f x) = P x) \<Longrightarrow> find P (map f xs) = map_option f (find P xs)"
  by (induction xs) auto

lemma group_port_map_procs:
  assumes "\<And>p. process_type (f p) = process_type p" and "\<And>p. cmd_args (f p) = cmd_args p"
  shows "group_port (g\<lparr>processes := map f (processes g)\<rparr>) = group_port g"
proof -
  have "find is_browser (map f (processes g)) = map_option f (find is_browser (processes g))"
    by (rule find_map_pres) (simp add: is_browser_def assms)
  then show ?thesis
    by (cases "find is_browser (processes g)") (simp_all add: group_port_def assms)
qed

lemma group_port_merged: "group_port (merged_group portMap g) = group_port g"
  unfolding merged_group_def by (rule group_port_map_procs) (simp_all add: merge_proc_fields)

lemma group_lookup_merged: "group_lookup portMap' (merged_group portMap g) = group_lookup portMap' g"
  by (simp add: group_lookup_def group_port_merged)

lemma group_pages_merged: "group_pages portMap (merged_group portMap g) = group_pages portMap g"
  by (simp add: group_pages_def group_lookup_merged)

lemma merge_throws_merged: "merge_throws portMap' (merged_group portMap g) = merge_throws portMap' g"
  by (simp add: merge_throws_def group_lookup_merged)

lemma inherited_port_merged: "inherited_port (merged_group portMap g) = inherited_port g"
  by (simp add: inherited_port_def group_port_merged)

lemma list_ex_map_pres: "(\<And>x. P (f x) = P x) \<Longrightarrow> list_ex P (map f xs) = list_ex P xs"
  by (induction xs) auto

lemma merge_throws_merged_groups:
  "list_ex (merge_throws portMap') (merged_groups portMap prev) = list_ex (merge_throws portMap') prev"
  unfolding merged_groups_def by (rule list_ex_map_pres) (rule merge_throws_merged)

lemma inherited_port_merged_groups:
  "list_ex inherited_port (merged_groups portMap prev) = list_ex inherited_port prev"
  unfolding merged_groups_def by (rule list_ex_map_pres) (rule inherited_port_merged)

lemma pid_matches_merge: "pid_matches (merge_proc pg p) = pid_matches p"
  by (rule ext) (simp add: pid_matches_def merge_proc_fields cong: option.case_cong)

lemma merge_proc_idem: "merge_proc pg (merge_proc pg p) = merge_proc pg p"
proof (cases pg)
  case None
  then show ?thesis by simp
next
  case (Some pages)
  have "find (pid_matches (merge_proc pg p)) pages = find (pid_matches p) pages"
    by (simp add: pid_matches_merge)
  then show ?thesis
    using Some by (cases "find (pid_matches p) pages") (simp_all add: merge_proc_eq)
qed

lemma merged_group_idem: "merged_group portMap (merged_group portMap g) = merged_group portMap g"
proof -
  have "merged_group portMap (merged_group portMap g)
          = (merged_group portMap g)\<lparr>processes :=
               map (merge_proc (group_pages portMap g)) (processes (merged_group portMap g))\<rparr>"
    by (simp add: merged_group_def [of portMap "merged_group portMap g"] group_pages_merged)
  also have "\<dots> = merged_group portMap g"
    by (simp add: merged_group_def merge_proc_idem)
  finally show ?thesis .
qed

lemma merged_groups_idem:
  "merged_groups portMap (merged_groups portMap prev) = merged_groups portMap prev"
  by (simp add: merged_groups_def merged_group_idem)

lemma all_procs_merged_groups:
  "all_procs (merged_groups portMap prev) =
     concat (map (\<lambda>g. map (merge_proc (group_pages portMap g)) (processes g)) prev)"
  by (simp add: all_procs_def merged_groups_def merged_group_def comp_def)

lemma pids_of_merged_groups: "pids_of (merged_groups portMap prev) = pids_of prev"
proof -
  have "(\<lambda>g. map pid (processes (merged_group portMap g))) = (\<lambda>g. map pid (processes g))"
    by (rule ext) (simp add: merged_group_def comp_def merge_proc_fields)
  then show ?thesis
    by (simp add: pids_of_def all_procs_def merged_groups_def map_concat comp_def)
qed

lemma merged_groups_no_pids:
  assumes "set (pids_of prev) \<inter> set (page_pids portMap) = {}"
  shows "merged_groups portMap prev = prev"
proof -
  have "merged_group portMap g = g" if "g \<in> set prev" for g
  proof -
    have "merge_proc (group_pages portMap g) r = r" if "r \<in> set (processes g)" for r
    proof -
      from that \<open>g \<in> set prev\<close> have "pid r \<in> set (pids_of prev)"
        by (auto simp: pids_of_def all_procs_def)
      with assms have "pid r \<notin> set (page_pids portMap)" by auto
      then show ?thesis by (rule merge_proc_no_pid)
    qed
    then show ?thesis by (simp add: merged_group_def map_id_iff[THEN iffD2])
  qed
  then show ?thesis by (simp add: merged_groups_def map_id_iff)
qed

lemma query_port_None: "\<not> root_declares_port g \<Longrightarrow> query_port g = None"
proof (cases "group_root g")
  case None
  then show ?thesis by (simp add: query_port_def)
next
  case (Some rootp)
  assume "\<not> root_declares_port g"
  with Some have "find (\<lambda>a. startsWith a debug_port_flag) (cmd_args rootp) = None"
    by (simp add: root_declares_port_def declares_debug_port_def find_None_list_ex)
  with Some show ?thesis by (simp add: query_port_def)
qed

lemma queried_ports_skip:
  "query_port g = None \<Longrightarrow> queried_ports (gs1 @ g # gs2) = queried_ports (gs1 @ gs2)"
  by (simp add: queried_ports_def List.map_filter_def)

lemma find_Some_holds: "find P xs = Some x \<Longrightarrow> x \<in> set xs \<and> P x"
  by (induction xs) (auto split: if_splits)

lemma no_browser_declares:
  assumes "list_all (\<lambda>p. is_browser p \<longrightarrow> \<not> declares_debug_port p) (processes g)"
  shows "\<not> root_declares_port g" and "\<not> hasRemoteDebugging g"
proof -
  show "\<not> root_declares_port g"
    using assms
    by (auto simp: root_declares_port_def group_root_def list_all_iff
             split: option.splits dest!: find_Some_holds)
  show "\<not> hasRemoteDebugging g"
    using assms
    by (auto simp: hasRemoteDebugging_def declares_debug_port_def list_all_iff
             split: option.splits dest!: find_Some_holds)
qed

lemmas merge_eval =
  apply_cdp_def cdp_update_def patch_group_def merge_group_def port_lookup_def
  object_prototype_members_def group_port_def group_lookup_def group_pages_def patch_proc_def
  pid_matches_def target_text_def is_browser_def startsWith_def debug_port_flag_def Let_def
  first_entry_for_def

lemmas state_eval = finish_loading_def publish_def initial_state_def status_visible_def view_def

lemmas carry_eval = carry_forward_def carry_proc_def urlMap_of_def urlMap_step_def

text \<open>
  What holds of the handling of a failed debug request: a rejection, a null answer and
  an answer without keys leave the state as it is, and a group whose port text is
  neither a key of the answer nor the name of an inherited member, or whose entry list
  is empty, is handed back as the same object. The merge of a group throws exactly when
  the read for its port yields an inherited member.
\<close>

lemma cdp_failure_cases:
  "step st (CdpSettled n CdpRejected) = Inr st \<and>
   step st (CdpSettled n (CdpResolved None)) = Inr st \<and>
   step st (CdpSettled n (CdpResolved (Some []))) = Inr st \<and>
   (group_lookup portMap g = Undefined \<or> group_lookup portMap g = Pages []
      \<longrightarrow> patch_group portMap g = Inr Same) \<and>
   (patch_group portMap g = Inl TypeError \<longleftrightarrow> merge_throws portMap g)"
  by (auto simp: patch_group_lookup merge_group_Nil merge_throws_def split: port_value.splits)

section \<open>Properties of the carry-forward and of the refresh steps\<close>

lemma cdp_settled_eq:
  "cdp_settled outcome st =
     (case outcome of
        CdpRejected \<Rightarrow> Inr st
      | CdpResolved None \<Rightarrow> Inr st
      | CdpResolved (Some portMap) \<Rightarrow>
          if portMap = [] then Inr st
          else if list_ex (merge_throws portMap) (groups st) then Inl TypeError
          else Inr (st\<lparr>groups := merged_groups portMap (groups st)\<rparr>))"
  by (cases "(outcome, st)" rule: cdp_settled.cases) (simp_all add: apply_cdp_cases)

lemma cdp_settled_Inr:
  assumes "cdp_settled outcome st = Inr st'"
  shows "groups st' = groups st \<or> (\<exists>portMap. groups st' = merged_groups portMap (groups st))"
    and "loading st' = loading st" and "expandedGroups st' = expandedGroups st"
    and "statusMsg st' = statusMsg st" and "console st' = console st"
  using assms
  by (auto simp: cdp_settled_eq split: cdp_outcome.splits option.splits if_splits)

lemma run_snoc: "run st (evs @ [ev]) = (case run st evs of Inl e \<Rightarrow> Inl e | Inr s \<Rightarrow> step s ev)"
  by (induction evs arbitrary: st) (auto split: sum.splits)

lemma foldl_nested: "foldl (\<lambda>m g. foldl f m (h g)) a xs = foldl f a (concat (map h xs))"
  by (induction xs arbitrary: a) auto

lemma urlMap_of_all_procs: "urlMap_of prev = foldl urlMap_step Map.empty (all_procs prev)"
  by (simp add: urlMap_of_def all_procs_def foldl_nested)

lemma urlMap_fold_keeps:
  "\<forall>r\<in>set ps. pid r = p \<longrightarrow> url r = u \<and> cdp_target_type r = t \<Longrightarrow> m p = Some (u, t) \<Longrightarrow>
   foldl urlMap_step m ps p = Some (u, t)"
proof (induction ps arbitrary: m)
  case Nil
  then show ?case by simp
next
  case (Cons r ps)
  have "urlMap_step m r p = Some (u, t)"
    using Cons.prems by (auto simp: urlMap_step_def)
  with Cons show ?case by simp
qed

lemma urlMap_fold_finds:
  "\<forall>r\<in>set ps. pid r = p \<longrightarrow> url r = u \<and> cdp_target_type r = t \<Longrightarrow> u \<noteq> [] \<Longrightarrow>
   p \<in> pid ` set ps \<Longrightarrow> foldl urlMap_step m ps p = Some (u, t)"
proof (induction ps arbitrary: m)
  case Nil
  then show ?case by simp
next
  case (Cons r ps)
  show ?case
  proof (cases "pid r = p")
    case True
    with Cons.prems have "urlMap_step m r p = Some (u, t)"
      by (simp add: urlMap_step_def)
    with Cons.prems show ?thesis by (simp add: urlMap_fold_keeps)
  next
    case False
    with Cons show ?thesis by simp
  qed
qed

lemma all_procs_carry_forward:
  "all_procs (carry_forward prev data) = map (carry_proc (urlMap_of prev)) (all_procs data)"
  by (simp add: all_procs_def carry_forward_def map_concat comp_def)

lemma pid_carry_proc: "pid (carry_proc um r) = pid r"
  by (simp add: carry_proc_def split: option.splits)

lemma pids_of_carry_forward: "pids_of (carry_forward prev data) = pids_of data"
  by (simp add: pids_of_def all_procs_carry_forward pid_carry_proc)

lemma holds_debug_iff:
  "holds_debug p u t gs \<longleftrightarrow>
     p \<in> pid ` set (all_procs gs) \<and> (\<forall>r\<in>set (all_procs gs). pid r = p \<longrightarrow> url r = u \<and> cdp_target_type r = t)"
  by (simp add: holds_debug_def pids_of_def list_all_iff)

lemma holds_debug_carry_forward:
  assumes "u \<noteq> []" and "holds_debug p u t prev" and "p \<in> set (pids_of data)"
  shows "holds_debug p u t (carry_forward prev data)"
proof -
  have um: "urlMap_of prev p = Some (u, t)"
    using assms(1,2) unfolding urlMap_of_all_procs holds_debug_iff
    by (intro urlMap_fold_finds) auto
  have "url (carry_proc (urlMap_of prev) r) = u \<and> cdp_target_type (carry_proc (urlMap_of prev) r) = t"
    if "pid r = p" for r
    using um that by (simp add: carry_proc_def)
  then have "list_all (\<lambda>r. pid r = p \<longrightarrow> url r = u \<and> cdp_target_type r = t)
               (all_procs (carry_forward prev data))"
    by (auto simp: all_procs_carry_forward list_all_iff pid_carry_proc)
  with assms(3) show ?thesis
    by (simp add: holds_debug_def pids_of_carry_forward)
qed

lemma holds_debug_merged:
  assumes "holds_debug p u t prev" and "p \<notin> set (page_pids portMap)"
  shows "holds_debug p u t (merged_groups portMap prev)"
proof -
  have "p \<in> set (pids_of (merged_groups portMap prev))"
    using assms(1) by (simp add: pids_of_merged_groups holds_debug_def)
  moreover have "url r' = u \<and> cdp_target_type r' = t"
    if "r' \<in> set (all_procs (merged_groups portMap prev))" and "pid r' = p" for r'
  proof -
    from that(1) obtain g r where g: "g \<in> set prev" and r: "r \<in> set (processes g)"
      and r': "r' = merge_proc (group_pages portMap g) r"
      by (auto simp: all_procs_merged_groups)
    from r' that(2) have pr: "pid r = p" by (simp add: merge_proc_fields)
    with assms(2) r' have "r' = r" by (simp add: merge_proc_no_pid)
    moreover from g r have "r \<in> set (all_procs prev)" by (auto simp: all_procs_def)
    ultimately show ?thesis using assms(1) pr by (simp add: holds_debug_iff)
  qed
  ultimately show ?thesis by (simp add: holds_debug_def list_all_iff)
qed

lemma groups_publish:
  "groups (finish_loading showLoading (publish showLoading data st)) = carry_forward (groups st) data"
  by (simp add: finish_loading_def publish_def Let_def)

lemma holds_debug_step:
  assumes "u \<noteq> []" and "holds_debug p u t (groups st)" and "quiet_for p ev"
    and "step st ev = Inr st'"
  shows "holds_debug p u t (groups st')"
proof (cases ev)
  case (Begin showLoading)
  with assms show ?thesis by auto
next
  case (Snapshot showLoading res)
  show ?thesis
  proof (cases res)
    case (Inl err)
    with Snapshot assms show ?thesis by (auto simp: finish_loading_def)
  next
    case (Inr data)
    with Snapshot assms have "p \<in> set (pids_of data)"
      and "groups st' = carry_forward (groups st) data"
      by (auto simp: groups_publish)
    with assms(1,2) show ?thesis by (simp add: holds_debug_carry_forward)
  qed
next
  case (CdpSettled n outcome)
  with assms(4) have s: "cdp_settled outcome st = Inr st'" by simp
  show ?thesis
  proof (cases outcome)
    case CdpRejected
    with s assms(2) show ?thesis by auto
  next
    case (CdpResolved answer)
    show ?thesis
    proof (cases answer)
      case None
      with CdpResolved s assms(2) show ?thesis by auto
    next
      case (Some portMap)
      with CdpResolved CdpSettled assms(3) have q: "p \<notin> set (page_pids portMap)" by simp
      from s CdpResolved Some
      have "groups st' = groups st \<or> groups st' = merged_groups portMap (groups st)"
        by (auto simp: cdp_settled_eq split: if_splits)
      with assms(2) q show ?thesis by (auto simp: holds_debug_merged)
    qed
  qed
qed

lemma holds_debug_run:
  "u \<noteq> [] \<Longrightarrow> holds_debug p u t (groups st) \<Longrightarrow> \<forall>ev\<in>set evs. quiet_for p ev \<Longrightarrow>
   run st evs = Inr s \<Longrightarrow> holds_debug p u t (groups s)"
proof (induction evs arbitrary: st)
  case Nil
  then show ?case by simp
next
  case (Cons ev evs)
  from Cons.prems(4) obtain st' where st': "step st ev = Inr st'" and r: "run st' evs = Inr s"
    by (auto split: sum.splits)
  from Cons.prems(1,2,3) st' have "holds_debug p u t (groups st')"
    by (intro holds_debug_step [of u p t st ev st']) simp_all
  with Cons.IH [of st'] Cons.prems(1,3) r show ?case by simp
qed

lemma carry_proc_fields:
  "process_type (carry_proc um p) = process_type p" "cmd_args (carry_proc um p) = cmd_args p"
  by (simp_all add: carry_proc_def split: option.splits)

lemma inherited_port_carry_forward:
  "list_ex inherited_port (carry_forward prev data) = list_ex inherited_port data"
  unfolding carry_forward_def
proof (rule list_ex_map_pres)
  fix g
  have "group_port (g\<lparr>processes := map (carry_proc (urlMap_of prev)) (processes g)\<rparr>) = group_port g"
    by (rule group_port_map_procs) (simp_all add: carry_proc_fields)
  then show "inherited_port (g\<lparr>processes := map (carry_proc (urlMap_of prev)) (processes g)\<rparr>)
               = inherited_port g"
    by (simp add: inherited_port_def)
qed

lemma step_plain:
  assumes "\<not> list_ex inherited_port (groups st)" and "plain_ports ev"
  shows "\<exists>st'. step st ev = Inr st' \<and> \<not> list_ex inherited_port (groups st')"
proof (cases ev)
  case (Begin showLoading)
  with assms show ?thesis by simp
next
  case (Snapshot showLoading res)
  with assms show ?thesis
    by (cases res) (simp_all add: groups_publish inherited_port_carry_forward,
          simp add: finish_loading_def)
next
  case (CdpSettled n outcome)
  have nt: "\<not> list_ex (merge_throws portMap) (groups st)" for portMap
    using assms(1) list_ex_mono_pred [of "merge_throws portMap" "groups st" inherited_port]
    by (auto simp: merge_throws_inherited)
  from assms(1) CdpSettled show ?thesis
    by (auto simp: cdp_settled_eq nt inherited_port_merged_groups
          split: cdp_outcome.splits option.splits)
qed

lemma run_plain:
  "\<not> list_ex inherited_port (groups st) \<Longrightarrow> list_all plain_ports evs \<Longrightarrow>
   \<exists>s. run st evs = Inr s \<and> \<not> list_ex inherited_port (groups s)"
proof (induction evs arbitrary: st)
  case Nil
  then show ?case by simp
next
  case (Cons ev evs)
  from Cons.prems obtain st' where "step st ev = Inr st'" "\<not> list_ex inherited_port (groups st')"
    using step_plain [of st ev] by auto
  with Cons.IH [of st'] Cons.prems(2) show ?case by simp
qed

section \<open>Properties of the display sort\<close>

lemmas sort_eval =
  sortProcesses_def order_of_def toLowerCase_def toLowerCase_char_def strip_plural_def typeOrder_def

lemma order_of_roles:
  "process_type p = ''Browser'' \<Longrightarrow> order_of p = 0"
  "process_type p = ''Renderer'' \<Longrightarrow> order_of p = 1"
  "process_type p = ''GPU'' \<Longrightarrow> order_of p = 2"
  "process_type p = ''Crashpad'' \<Longrightarrow> order_of p = 3"
  "process_type p = ''Utility'' \<Longrightarrow> order_of p = 4"
  "process_type p = ''Unknown'' \<Longrightarrow> order_of p = 99"
  by (simp_all add: sort_eval)

lemma spec_rank_roles:
  "process_type p = ''Browser'' \<Longrightarrow> spec_rank p = 0"
  "process_type p = ''Renderer'' \<Longrightarrow> spec_rank p = 1"
  "process_type p = ''GPU'' \<Longrightarrow> spec_rank p = 3"
  "process_type p = ''Crashpad'' \<Longrightarrow> spec_rank p = 4"
  "process_type p = ''Utility'' \<Longrightarrow> spec_rank p = 5"
  "process_type p = ''Unknown'' \<Longrightarrow> spec_rank p = 6"
  by (simp_all add: spec_rank_def)

lemma rank_mono:
  assumes "process_type a \<in> set roles_without_extension"
    and "process_type b \<in> set roles_without_extension"
    and "order_of a \<le> order_of b"
  shows "spec_rank a \<le> spec_rank b"
proof -
  from assms(1) consider "process_type a = ''Browser''" | "process_type a = ''Renderer''"
    | "process_type a = ''GPU''" | "process_type a = ''Crashpad''"
    | "process_type a = ''Utility''" | "process_type a = ''Unknown''"
    by (auto simp: roles_without_extension_def)
  then have a: "(order_of a, spec_rank a) \<in> {(0, 0), (1, 1), (2, 3), (3, 4), (4, 5), (99, 6)}"
    by cases (simp_all add: order_of_roles spec_rank_roles)
  from assms(2) consider "process_type b = ''Browser''" | "process_type b = ''Renderer''"
    | "process_type b = ''GPU''" | "process_type b = ''Crashpad''"
    | "process_type b = ''Utility''" | "process_type b = ''Unknown''"
    by (auto simp: roles_without_extension_def)
  then have b: "(order_of b, spec_rank b) \<in> {(0, 0), (1, 1), (2, 3), (3, 4), (4, 5), (99, 6)}"
    by cases (simp_all add: order_of_roles spec_rank_roles)
  from a b assms(3) show ?thesis by auto
qed

lemma sorted_by_order_of: "sorted_wrt (\<lambda>a b. order_of a \<le> order_of b) (sortProcesses procs)"
proof -
  have "sorted (map order_of (sort_key order_of procs))" by (rule sorted_sort_key)
  then show ?thesis by (simp add: sortProcesses_def sorted_map)
qed

lemma filter_filter_weaker: "(\<And>x. P x \<Longrightarrow> Q x) \<Longrightarrow> filter P (filter Q xs) = filter P xs"
  by (induction xs) auto

lemma sort_stable_by_type:
  "filter (\<lambda>p. process_type p = ty) (sortProcesses procs) = filter (\<lambda>p. process_type p = ty) procs"
proof -
  define k where "k = (case map_of typeOrder (strip_plural (toLowerCase ty)) of Some n \<Rightarrow> n | None \<Rightarrow> 99)"
  have imp: "order_of p = k" if "process_type p = ty" for p
    using that by (simp add: order_of_def k_def)
  have "filter (\<lambda>p. process_type p = ty) (sortProcesses procs)
          = filter (\<lambda>p. process_type p = ty) (filter (\<lambda>p. order_of p = k) (sortProcesses procs))"
    by (rule filter_filter_weaker [symmetric]) (rule imp)
  also have "\<dots> = filter (\<lambda>p. process_type p = ty) (filter (\<lambda>p. order_of p = k) procs)"
    by (simp only: sortProcesses_def sort_key_stable)
  also have "\<dots> = filter (\<lambda>p. process_type p = ty) procs"
    by (rule filter_filter_weaker) (rule imp)
  finally show ?thesis .
qed

text \<open>
  The table \<open>typeOrder\<close> has no key for the Extension role, so an extension process
  gets the default 99 and is placed after the GPU process.
\<close>

lemma display_sort_extension_last:
  "map process_type (sortProcesses sample_extension_gpu) = [''GPU'', ''Extension'']"
  by (simp add: sort_eval sample_defs)

section \<open>Properties of the Group Builder\<close>

lemma walk_browser: "is_browser p \<Longrightarrow> walk idx fuel p = Some (pid p)"
  by (cases fuel) simp_all

lemma index_by_pid_in: "index_by_pid ps q = Some parent \<Longrightarrow> parent \<in> set ps"
  by (auto simp: index_by_pid_def dest!: map_of_SomeD)

lemma walk_reaches_browser:
  "walk (index_by_pid ps) fuel p = Some r \<Longrightarrow> p \<in> set ps \<Longrightarrow>
   \<exists>b\<in>set ps. is_browser b \<and> pid b = r"
proof (induction fuel arbitrary: p)
  case 0
  then show ?case by (auto split: if_splits)
next
  case (Suc fuel)
  show ?case
  proof (cases "is_browser p")
    case True
    with Suc.prems show ?thesis by auto
  next
    case False
    with Suc.prems obtain q parent where "index_by_pid ps q = Some parent"
      and w: "walk (index_by_pid ps) fuel parent = Some r"
      by (auto split: option.splits)
    then have "parent \<in> set ps" by (simp add: index_by_pid_in)
    with w show ?thesis by (rule Suc.IH)
  qed
qed

lemma set_root_pids: "set (root_pids ps) = pid ` {p \<in> set ps. is_browser p}"
  by (auto simp: root_pids_def)

lemma distinct_root_pids: "distinct (root_pids ps)"
  by (simp add: root_pids_def)

lemma make_group_root:
  assumes "r \<in> set (root_pids ps)"
  shows "\<exists>g. make_group channel_of host_of ps r = [g] \<and> browser_pid g = r \<and>
             processes g = filter (\<lambda>p. root_of ps p = Some r) ps"
proof -
  from assms have "\<exists>p\<in>set ps. is_browser p \<and> pid p = r"
    by (auto simp: set_root_pids)
  then obtain rootp where "find (\<lambda>p. is_browser p \<and> pid p = r) ps = Some rootp"
    by (cases "find (\<lambda>p. is_browser p \<and> pid p = r) ps") (auto simp: find_None_iff)
  then show ?thesis by (simp add: make_group_def)
qed

lemma concat_singletons:
  "\<forall>x\<in>set xs. \<exists>g. f x = [g] \<and> h g = x \<Longrightarrow> map h (concat (map f xs)) = xs"
  by (induction xs) auto

lemma browser_pids_build: "map browser_pid (build_groups channel_of host_of ps) = root_pids ps"
  unfolding build_groups_def
  by (rule concat_singletons) (use make_group_root in blast)

lemma build_groups_member:
  assumes "g \<in> set (build_groups channel_of host_of ps)"
  shows "browser_pid g \<in> set (root_pids ps) \<and>
         processes g = filter (\<lambda>p. root_of ps p = Some (browser_pid g)) ps"
proof -
  from assms obtain r where r: "r \<in> set (root_pids ps)"
    and g: "g \<in> set (make_group channel_of host_of ps r)"
    by (auto simp: build_groups_def)
  from make_group_root [OF r, of channel_of host_of] g r show ?thesis by auto
qed

lemma build_groups_has:
  assumes "r \<in> set (root_pids ps)"
  shows "\<exists>g\<in>set (build_groups channel_of host_of ps). browser_pid g = r"
proof -
  from assms have "r \<in> set (map browser_pid (build_groups channel_of host_of ps))"
    by (simp add: browser_pids_build)
  then show ?thesis by auto
qed

lemmas build_eval =
  build_groups_def make_group_def root_pids_def root_of_def index_by_pid_def is_browser_def

lemma build_groups_browser_is_root:
  assumes "g \<in> set (build_groups channel_of host_of ps)" and "p \<in> set (processes g)"
    and "is_browser p"
  shows "pid p = browser_pid g"
proof -
  from build_groups_member [OF assms(1)] assms(2)
  have "root_of ps p = Some (browser_pid g)" by auto
  with assms(3) show ?thesis by (simp add: root_of_def walk_browser)
qed

section \<open>The claims\<close>

text \<open>
  C1 (amended). The settlement of a debug request is handled without regard to the
  cycle that issued it: the program keeps no cycle counter, and a result that arrives
  after later lists have been published is merged into the list published at that
  moment by the same rule as a fresh one. When no pid of the published list is named by
  an entry of the result, the state stays exactly as it was, unless the merge throws at
  a port text that names an inherited member.
\<close>

theorem stale_patch_merged_by_pid:
  "step st (CdpSettled n outcome) = step st (CdpSettled m outcome) \<and>
   (run st evs = Inr s \<longrightarrow>
      run st (evs @ [CdpSettled n (CdpResolved (Some portMap))]) =
        (if portMap = [] then Inr s
         else map_sum id (\<lambda>gs. s\<lparr>groups := gs\<rparr>) (apply_cdp portMap (groups s)))) \<and>
   (run st evs = Inr s \<longrightarrow> set (pids_of (groups s)) \<inter> set (page_pids portMap) = {} \<longrightarrow>
      run st (evs @ [CdpSettled n (CdpResolved (Some portMap))]) =
        (if portMap \<noteq> [] \<and> list_ex (merge_throws portMap) (groups s) then Inl TypeError
         else Inr s))"
  by (simp add: run_snoc apply_cdp_cases merged_groups_no_pids)

text \<open>
  C1 as stated fails: the list of the second cycle has been published when the result
  of the first cycle arrives, and the result is merged into it.
\<close>

theorem stale_patch_counterexample:
  "stale sample_two_cycles 1 \<and>
   view groups (run initial_state (sample_two_cycles @ [CdpSettled 1 (CdpResolved (Some sample_portMap))]))
     \<noteq> view groups (run initial_state sample_two_cycles) \<and>
   view groups (run initial_state (sample_two_cycles @ [CdpSettled 1 (CdpResolved (Some sample_portMap))]))
     = Inr [sample_group_patched]"
  by (simp add: stale_def published_count_def state_eval carry_eval merge_eval sample_defs)

theorem stale_patch_merged_by_pid_witness:
  "view groups (run initial_state sample_two_cycles) = Inr [sample_group] \<and>
   set (pids_of [sample_group]) \<inter> set (page_pids sample_portMap_gone) = {} \<and>
   run initial_state (sample_two_cycles @ [CdpSettled 1 (CdpResolved (Some sample_portMap_gone))])
     = run initial_state sample_two_cycles"
proof -
  have g: "view groups (run initial_state sample_two_cycles) = Inr [sample_group]"
    by (simp add: state_eval carry_eval sample_defs)
  then obtain s where s: "run initial_state sample_two_cycles = Inr s" and gs: "groups s = [sample_group]"
    by (cases "run initial_state sample_two_cycles") (auto simp: view_def)
  have h: "set (pids_of [sample_group]) \<inter> set (page_pids sample_portMap_gone) = {}"
    by (simp add: pids_of_def all_procs_def page_pids_def map_filter_simps sample_defs)
  have nt: "\<not> list_ex (merge_throws sample_portMap_gone) [sample_group]"
    by (simp add: merge_throws_def merge_eval sample_defs)
  have h': "set (pids_of (groups s)) \<inter> set (page_pids sample_portMap_gone) = {}"
    using h gs by simp
  have nt': "\<not> list_ex (merge_throws sample_portMap_gone) (groups s)"
    using nt gs by simp
  from stale_patch_merged_by_pid
         [of initial_state 1 CdpRejected 1 sample_two_cycles s sample_portMap_gone,
          THEN conjunct2, THEN conjunct2, rule_format, OF s h'] nt'
  have "run initial_state (sample_two_cycles @ [CdpSettled 1 (CdpResolved (Some sample_portMap_gone))]) = Inr s"
    by simp
  with g h s show ?thesis by simp
qed

text \<open>
  C2. Let the published list hold, for pid p, a non-empty debug url u and target type t
  (every record with that pid has them). After any number of events each of which
  either publishes a snapshot that still contains p, or settles a debug request without
  an entry for p (a rejection, a null answer, or entries for other pids only), the
  published list still has a record for p, and every record for p has exactly u and t.
  Such a run does reach a state when no group, at the start or in a snapshot, has a port
  text that names an inherited member. One publish alone is the case of one event,
  before the request of that cycle settles. A publish produces records for exactly the
  pids of its snapshot, so a pid that is gone from the snapshot has no record and no
  carried value.
\<close>

theorem carry_forward_preserved:
  assumes "u \<noteq> []" and "holds_debug p u t (groups st)" and "\<forall>ev\<in>set evs. quiet_for p ev"
  shows "(\<forall>s. run st evs = Inr s \<longrightarrow> holds_debug p u t (groups s)) \<and>
         (\<not> list_ex inherited_port (groups st) \<longrightarrow> list_all plain_ports evs \<longrightarrow>
            (\<exists>s. run st evs = Inr s \<and> holds_debug p u t (groups s))) \<and>
         (p \<in> set (pids_of data) \<longrightarrow>
            (\<exists>s. step st (Snapshot showLoading (Inr data)) = Inr s \<and> holds_debug p u t (groups s))) \<and>
         (\<exists>s. step st' (Snapshot showLoading (Inr data)) = Inr s \<and> pids_of (groups s) = pids_of data)"
proof -
  have a: "holds_debug p u t (groups s)" if "run st evs = Inr s" for s
    using assms that by (rule holds_debug_run)
  have b: "\<exists>s. run st evs = Inr s \<and> holds_debug p u t (groups s)"
    if "\<not> list_ex inherited_port (groups st)" "list_all plain_ports evs"
    using run_plain [OF that] a by auto
  have c: "\<exists>s. step st (Snapshot showLoading (Inr data)) = Inr s \<and> holds_debug p u t (groups s)"
    if "p \<in> set (pids_of data)"
    using assms(1,2) that by (simp add: groups_publish holds_debug_carry_forward)
  have d: "\<exists>s. step st' (Snapshot showLoading (Inr data)) = Inr s \<and> pids_of (groups s) = pids_of data"
    by (simp add: groups_publish pids_of_carry_forward)
  from a b c d show ?thesis by blast
qed

theorem carry_forward_preserved_witness:
  "''https://example.com'' \<noteq> [] \<and>
   holds_debug 101 ''https://example.com'' ''page'' [sample_group_patched] \<and>
   list_all (quiet_for 101) sample_quiet_cycles \<and>
   view groups (run (initial_state\<lparr>groups := [sample_group_patched]\<rparr>) sample_quiet_cycles)
     = Inr [sample_group_patched]"
proof -
  have h1: "''https://example.com'' \<noteq> []" by simp
  have h2: "holds_debug 101 ''https://example.com'' ''page''
              (groups (initial_state\<lparr>groups := [sample_group_patched]\<rparr>))"
    by (simp add: holds_debug_def pids_of_def all_procs_def sample_defs)
  have h3: "\<forall>ev\<in>set sample_quiet_cycles. quiet_for 101 ev"
    by (simp add: sample_defs pids_of_def all_procs_def page_pids_def map_filter_simps)
  have r: "view groups (run (initial_state\<lparr>groups := [sample_group_patched]\<rparr>) sample_quiet_cycles)
             = Inr [sample_group_patched]"
    by (simp add: state_eval carry_eval merge_eval sample_defs)
  then obtain s where s: "run (initial_state\<lparr>groups := [sample_group_patched]\<rparr>) sample_quiet_cycles = Inr s"
    and gs: "groups s = [sample_group_patched]"
    by (cases "run (initial_state\<lparr>groups := [sample_group_patched]\<rparr>) sample_quiet_cycles")
       (auto simp: view_def)
  from carry_forward_preserved [OF h1 h2 h3, of "[]" False initial_state] s gs
  have "holds_debug 101 ''https://example.com'' ''page'' [sample_group_patched]" by auto
  with h3 r show ?thesis by (simp add: list_all_iff)
qed

text \<open>
  C3 (amended). The display sort returns a permutation of the members in which the
  members whose role is Browser, Renderer, GPU, Crashpad, Utility or Unknown stand in
  that order of precedence, and members of the same role keep the order they had in the
  input; the pid plays no part.
\<close>

theorem display_sort_precedence:
  "mset (sortProcesses procs) = mset procs \<and>
   sorted_wrt (\<lambda>a b. spec_rank a \<le> spec_rank b)
     (filter (\<lambda>p. process_type p \<in> set roles_without_extension) (sortProcesses procs)) \<and>
   (\<forall>ty. filter (\<lambda>p. process_type p = ty) (sortProcesses procs)
            = filter (\<lambda>p. process_type p = ty) procs)"
proof -
  have "sorted_wrt (\<lambda>a b. order_of a \<le> order_of b)
          (filter (\<lambda>p. process_type p \<in> set roles_without_extension) (sortProcesses procs))"
    by (intro sorted_wrt_filter sorted_by_order_of)
  then have "sorted_wrt (\<lambda>a b. spec_rank a \<le> spec_rank b)
          (filter (\<lambda>p. process_type p \<in> set roles_without_extension) (sortProcesses procs))"
    by (rule sorted_wrt_mono_rel [rotated]) (auto intro: rank_mono)
  then show ?thesis
    by (simp add: sort_stable_by_type) (simp add: sortProcesses_def)
qed

text \<open>
  C3 as stated fails in its tie-break: two renderers given with the higher pid first
  stay in that order.
\<close>

theorem display_sort_pid_counterexample:
  "map pid (sortProcesses sample_renderers) = [2, 1] \<and>
   \<not> spec_display_sorted (sortProcesses sample_renderers)"
  by (simp add: sort_eval spec_display_sorted_def spec_rank_def sample_defs)

theorem display_sort_precedence_witness:
  "map pid (filter (\<lambda>p. process_type p = ''Renderer'') (sortProcesses (sample_snapshot @ sample_renderers)))
     = [101, 2, 1]"
  using display_sort_precedence [of "sample_snapshot @ sample_renderers", THEN conjunct2, THEN conjunct2,
          THEN spec, of "''Renderer''"]
  by (simp add: sample_defs)

text \<open>
  C4. For every snapshot and every group the Group Builder returns: the members of the
  group are exactly the records of the snapshot whose bounded walk ends at the root pid
  of the group, and the root, a record of role Browser with that pid, is among them. The
  roots of the groups are pairwise different and no record is a member of two groups. A
  record whose walk reaches no Browser record is a member of no group, and a record of
  the snapshot whose walk ends at some pid is a member of the group rooted there.
\<close>

theorem build_groups_partition:
  "(\<forall>g\<in>set (build_groups channel_of host_of ps).
      set (processes g) = {p \<in> set ps. root_of ps p = Some (browser_pid g)} \<and>
      (\<exists>b\<in>set (processes g). is_browser b \<and> pid b = browser_pid g)) \<and>
   distinct (map browser_pid (build_groups channel_of host_of ps)) \<and>
   (\<forall>i<length (build_groups channel_of host_of ps). \<forall>j<length (build_groups channel_of host_of ps).
      i \<noteq> j \<longrightarrow>
      set (processes (build_groups channel_of host_of ps ! i)) \<inter>
      set (processes (build_groups channel_of host_of ps ! j)) = {}) \<and>
   (\<forall>p. root_of ps p = None \<longrightarrow>
      (\<forall>g\<in>set (build_groups channel_of host_of ps). p \<notin> set (processes g))) \<and>
   (\<forall>p\<in>set ps. \<forall>r. root_of ps p = Some r \<longrightarrow>
      (\<exists>g\<in>set (build_groups channel_of host_of ps). browser_pid g = r \<and> p \<in> set (processes g)))"
proof -
  let ?gs = "build_groups channel_of host_of ps"
  have members: "set (processes g) = {p \<in> set ps. root_of ps p = Some (browser_pid g)}"
    if "g \<in> set ?gs" for g
    using build_groups_member [OF that] by auto
  have root_in: "\<exists>b\<in>set (processes g). is_browser b \<and> pid b = browser_pid g"
    if "g \<in> set ?gs" for g
  proof -
    from build_groups_member [OF that] obtain b where "b \<in> set ps" "is_browser b"
      "pid b = browser_pid g"
      by (auto simp: set_root_pids)
    moreover from this have "root_of ps b = Some (browser_pid g)"
      by (simp add: root_of_def walk_browser)
    ultimately show ?thesis using members [OF that] by auto
  qed
  have dist: "distinct (map browser_pid ?gs)"
    by (simp add: browser_pids_build distinct_root_pids)
  have disj: "set (processes (?gs ! i)) \<inter> set (processes (?gs ! j)) = {}"
    if "i < length ?gs" "j < length ?gs" "i \<noteq> j" for i j
  proof -
    from dist that have "browser_pid (?gs ! i) \<noteq> browser_pid (?gs ! j)"
      by (simp add: distinct_conv_nth)
    moreover from that have "?gs ! i \<in> set ?gs" "?gs ! j \<in> set ?gs" by simp_all
    ultimately show ?thesis by (auto simp: members)
  qed
  have none: "p \<notin> set (processes g)" if "root_of ps p = None" "g \<in> set ?gs" for p g
    using that by (simp add: members)
  have some: "\<exists>g\<in>set ?gs. browser_pid g = r \<and> p \<in> set (processes g)"
    if "p \<in> set ps" "root_of ps p = Some r" for p r
  proof -
    from that have "\<exists>b\<in>set ps. is_browser b \<and> pid b = r"
      unfolding root_of_def by (intro walk_reaches_browser)
    then have "r \<in> set (root_pids ps)" by (auto simp: set_root_pids)
    then obtain g where "g \<in> set ?gs" "browser_pid g = r"
      using build_groups_has by blast
    with that show ?thesis by (auto simp: members)
  qed
  from members root_in dist disj none some show ?thesis by blast
qed

theorem build_groups_partition_witness:
  "map (\<lambda>g. (browser_pid g, map pid (processes g), channel g))
       (build_groups (\<lambda>p. ''Canary'') (\<lambda>p. []) sample_snapshot) = [(100, [100, 101], ''Canary'')] \<and>
   root_of sample_snapshot sample_helper = None \<and>
   list_all (\<lambda>g. sample_helper \<notin> set (processes g))
       (build_groups (\<lambda>p. ''Canary'') (\<lambda>p. []) sample_snapshot)"
proof -
  have h: "root_of sample_snapshot sample_helper = None"
    by (simp add: build_eval sample_defs)
  have e: "map (\<lambda>g. (browser_pid g, map pid (processes g), channel g))
       (build_groups (\<lambda>p. ''Canary'') (\<lambda>p. []) sample_snapshot) = [(100, [100, 101], ''Canary'')]"
    by (simp add: build_eval sample_defs)
  from build_groups_partition [of "\<lambda>p. ''Canary''" "\<lambda>p. []" sample_snapshot] h
  have "\<forall>g\<in>set (build_groups (\<lambda>p. ''Canary'') (\<lambda>p. []) sample_snapshot).
          sample_helper \<notin> set (processes g)"
    by blast
  with h e show ?thesis by (simp add: list_all_iff)
qed

text \<open>
  C5 (amended). When the snapshot request is rejected, the published group list, the
  set of expanded groups and the status message are exactly what they were; the busy
  flag is cleared when the refresh had set it; and the failure is written to the console
  log. The status message is not set, so the status card shows nothing new.
\<close>

theorem snapshot_failure_keeps_groups:
  "view groups (step st (Snapshot showLoading (Inl err))) = Inr (groups st) \<and>
   view expandedGroups (step st (Snapshot showLoading (Inl err))) = Inr (expandedGroups st) \<and>
   view statusMsg (step st (Snapshot showLoading (Inl err))) = Inr (statusMsg st) \<and>
   view console (step st (Snapshot showLoading (Inl err)))
     = Inr (console st @ [''Failed to get processes: '' @ err]) \<and>
   view loading (step st (Snapshot showLoading (Inl err)))
     = Inr (if showLoading then False else loading st) \<and>
   view groups (run st [Begin showLoading, Snapshot showLoading (Inl err)]) = Inr (groups st) \<and>
   view status_visible (run st [Begin showLoading, Snapshot showLoading (Inl err)])
     = Inr (status_visible st)"
  by (simp add: state_eval)

text \<open>
  C5 as stated fails in its last part: after a published list, a failing refresh leaves
  the list in place but no status message is shown.
\<close>

theorem snapshot_failure_status_counterexample:
  "view groups (run initial_state [Begin True, Snapshot True (Inr [sample_group]),
                                   Begin False, Snapshot False (Inl ''snapshot provider failed'')])
     = Inr [sample_group] \<and>
   view status_visible (run initial_state [Begin True, Snapshot True (Inr [sample_group]),
                                           Begin False, Snapshot False (Inl ''snapshot provider failed'')])
     = Inr False"
  by (simp add: state_eval carry_eval sample_defs)

theorem snapshot_failure_keeps_groups_witness:
  "view groups (run (initial_state\<lparr>groups := [sample_group_patched]\<rparr>)
                  [Begin True, Snapshot True (Inl ''snapshot provider failed'')])
     = Inr [sample_group_patched] \<and>
   view console (step (initial_state\<lparr>groups := [sample_group_patched]\<rparr>)
                   (Snapshot True (Inl ''snapshot provider failed'')))
     = Inr [''Failed to get processes: snapshot provider failed'']"
  using snapshot_failure_keeps_groups
          [of "initial_state\<lparr>groups := [sample_group_patched]\<rparr>" True "''snapshot provider failed''"]
  by (simp add: initial_state_def)

text \<open>
  C6. The patch step changes only the two debug fields. When the updater returns a
  list, that list equals the list before it once the debug fields are blanked: the
  number and order of the groups, every group-level field, the membership of every
  group and every other field of every record are the same. A record whose pid is named
  by no entry of the answer is the same record afterwards. The other parts of the
  component state are untouched by the settlement of the request. The updater does
  return a list whenever no group has a port text that names an inherited member.
\<close>

theorem cdp_patch_frame:
  "(apply_cdp portMap prev = Inr new \<longrightarrow>
      map strip_debug new = map strip_debug prev \<and>
      length new = length prev \<and>
      (\<forall>i<length prev. \<forall>j<length (processes (prev ! i)).
         pid (processes (prev ! i) ! j) \<notin> set (page_pids portMap) \<longrightarrow>
         processes (new ! i) ! j = processes (prev ! i) ! j)) \<and>
   (step st (CdpSettled n outcome) = Inr st' \<longrightarrow>
      map strip_debug (groups st') = map strip_debug (groups st) \<and>
      loading st' = loading st \<and>
      expandedGroups st' = expandedGroups st \<and>
      statusMsg st' = statusMsg st \<and>
      console st' = console st) \<and>
   (\<not> list_ex inherited_port prev \<longrightarrow> (\<exists>new. apply_cdp portMap prev = Inr new))"
proof -
  have a: "map strip_debug new = map strip_debug prev \<and> length new = length prev \<and>
      (\<forall>i<length prev. \<forall>j<length (processes (prev ! i)).
         pid (processes (prev ! i) ! j) \<notin> set (page_pids portMap) \<longrightarrow>
         processes (new ! i) ! j = processes (prev ! i) ! j)"
    if "apply_cdp portMap prev = Inr new"
  proof -
    from that have new: "new = merged_groups portMap prev"
      by (simp add: apply_cdp_cases split: if_splits)
    have "length (merged_groups portMap prev) = length prev"
      by (simp add: merged_groups_def)
    then show ?thesis
      unfolding new by (simp add: strip_merged_groups merged_groups_proc_nth merge_proc_no_pid)
  qed
  have b: "map strip_debug (groups st') = map strip_debug (groups st) \<and>
      loading st' = loading st \<and> expandedGroups st' = expandedGroups st \<and>
      statusMsg st' = statusMsg st \<and> console st' = console st"
    if "step st (CdpSettled n outcome) = Inr st'"
  proof -
    from that have s: "cdp_settled outcome st = Inr st'" by simp
    from cdp_settled_Inr(1) [OF s]
    have "map strip_debug (groups st') = map strip_debug (groups st)"
      by (auto simp: strip_merged_groups)
    with cdp_settled_Inr(2-5) [OF s] show ?thesis by simp
  qed
  have c: "\<exists>new. apply_cdp portMap prev = Inr new" if "\<not> list_ex inherited_port prev"
    using that by (simp add: apply_cdp_plain)
  from a b c show ?thesis by blast
qed

text \<open>C6 at the sample group: the browser record, which no entry names, is unchanged.\<close>

theorem cdp_patch_frame_witness:
  "apply_cdp sample_portMap [sample_group] = Inr [sample_group_patched] \<and>
   pid (processes ([sample_group] ! 0) ! 0) \<notin> set (page_pids sample_portMap) \<and>
   processes ([sample_group_patched] ! 0) ! 0 = sample_browser \<and>
   map strip_debug [sample_group_patched] = map strip_debug [sample_group]"
proof -
  have r: "apply_cdp sample_portMap [sample_group] = Inr [sample_group_patched]"
    by (simp add: merge_eval sample_defs)
  have h: "pid (processes ([sample_group] ! 0) ! 0) \<notin> set (page_pids sample_portMap)"
    by (simp add: sample_defs page_pids_def map_filter_simps)
  have "0 < length [sample_group]" and "0 < length (processes ([sample_group] ! 0))"
    by (simp_all add: sample_group_def)
  with r h cdp_patch_frame [of sample_portMap "[sample_group]" "[sample_group_patched]"
                              initial_state 0 CdpRejected initial_state]
  have "processes ([sample_group_patched] ! 0) ! 0 = processes ([sample_group] ! 0) ! 0"
    and "map strip_debug [sample_group_patched] = map strip_debug [sample_group]"
    by blast+
  with r h show ?thesis by (simp add: sample_group_def)
qed

text \<open>
  C7 (amended). An entry whose process id is null patches nothing: the merge gives the
  same result with and without such entries. When the updater returns a list, a record
  with a non-zero pid has taken the values of the first entry that names its pid in the
  list stored under the port of its group, and of no other entry; when there is no such
  entry, or the group yields no port with data, the record is unchanged.
\<close>

theorem cdp_first_entry_patches:
  assumes "apply_cdp portMap prev = Inr new"
    and "i < length prev" and "j < length (processes (prev ! i))"
    and "pid (processes (prev ! i) ! j) \<noteq> 0"
  shows "processes (new ! i) ! j =
           (case first_entry_for portMap (prev ! i) (processes (prev ! i) ! j) of
              None \<Rightarrow> processes (prev ! i) ! j
            | Some e \<Rightarrow> (processes (prev ! i) ! j)\<lparr>url := page_url e, cdp_target_type := target_text e\<rparr>) \<and>
         cdp_update (drop_null_entries portMap) prev = cdp_update portMap prev \<and>
         step st (CdpSettled n (CdpResolved (Some (drop_null_entries portMap)))) =
           step st (CdpSettled n (CdpResolved (Some portMap)))"
proof -
  from assms(1) have new: "new = merged_groups portMap prev"
    by (simp add: apply_cdp_cases split: if_splits)
  have "processes (new ! i) ! j =
          merge_proc (group_pages portMap (prev ! i)) (processes (prev ! i) ! j)"
    unfolding new using assms(2,3) by (rule merged_groups_proc_nth)
  moreover have "apply_cdp (drop_null_entries portMap) (groups st) = apply_cdp portMap (groups st)"
    by (simp add: apply_cdp_def cdp_update_drop_null)
  ultimately show ?thesis
    using assms(4) by (simp add: merge_proc_first_entry cdp_update_drop_null drop_null_Nil_iff)
qed

text \<open>
  C7 as stated fails when two entries name the same pid: the second entry names the
  renderer within the list of its group's port, yet the renderer does not carry it.
\<close>

theorem cdp_entry_exactly_counterexample:
  "apply_cdp sample_portMap_two [sample_group] =
     Inr [sample_group\<lparr>processes :=
            [sample_browser, sample_renderer\<lparr>url := ''https://a.example'', cdp_target_type := ''page''\<rparr>]\<rparr>] \<and>
   entry_names_record sample_portMap_two sample_group sample_renderer sample_page_b \<and>
   \<not> carries_entry (sample_renderer\<lparr>url := ''https://a.example'', cdp_target_type := ''page''\<rparr>)
        sample_page_b"
  by (simp add: entry_names_record_def carries_entry_def merge_eval sample_defs)

theorem cdp_first_entry_patches_witness:
  "apply_cdp sample_portMap_two [sample_group] =
     Inr [sample_group\<lparr>processes :=
            [sample_browser, sample_renderer\<lparr>url := ''https://a.example'', cdp_target_type := ''page''\<rparr>]\<rparr>] \<and>
   0 < length [sample_group] \<and> 1 < length (processes ([sample_group] ! 0)) \<and>
   pid (processes ([sample_group] ! 0) ! 1) \<noteq> 0 \<and>
   first_entry_for sample_portMap_two ([sample_group] ! 0) (processes ([sample_group] ! 0) ! 1)
     = Some sample_page_a \<and>
   processes ([sample_group\<lparr>processes :=
            [sample_browser, sample_renderer\<lparr>url := ''https://a.example'', cdp_target_type := ''page''\<rparr>]\<rparr>] ! 0) ! 1
     = (processes ([sample_group] ! 0) ! 1)\<lparr>url := page_url sample_page_a,
          cdp_target_type := target_text sample_page_a\<rparr>"
proof -
  let ?new = "[sample_group\<lparr>processes :=
            [sample_browser, sample_renderer\<lparr>url := ''https://a.example'', cdp_target_type := ''page''\<rparr>]\<rparr>]"
  have r: "apply_cdp sample_portMap_two [sample_group] = Inr ?new"
    by (simp add: merge_eval sample_defs)
  have h: "0 < length [sample_group]" "1 < length (processes ([sample_group] ! 0))"
    "pid (processes ([sample_group] ! 0) ! 1) \<noteq> 0"
    by (simp_all add: sample_defs)
  have f: "first_entry_for sample_portMap_two ([sample_group] ! 0) (processes ([sample_group] ! 0) ! 1)
             = Some sample_page_a"
    by (simp add: merge_eval sample_defs)
  have "processes (?new ! 0) ! 1 =
          (processes ([sample_group] ! 0) ! 1)\<lparr>url := page_url sample_page_a,
             cdp_target_type := target_text sample_page_a\<rparr>"
    using cdp_first_entry_patches [OF r h, of initial_state 0, THEN conjunct1]
    unfolding f by simp
  with r h f show ?thesis by blast
qed

text \<open>
  C8. Take a group in which no member of role Browser has an argument that starts
  with the debugging-port flag: a group with no member of role Browser, or one whose
  Browser-role root, the only member of role Browser in a group the Group Builder
  returns, has none. The port discovery finds no port for the group, so the ports
  queried are those of the other groups alone; and the merge reads no port for the
  group and hands back the very same group, whatever the answer holds. The first part
  needs only that the root declares no port, the second only that the first member of
  role Browser, which is the one the merge inspects, declares none.
\<close>

theorem no_debug_flag_no_query_no_patch:
  "(\<not> root_declares_port g \<longrightarrow>
      query_port g = None \<and> queried_ports (gs1 @ g # gs2) = queried_ports (gs1 @ gs2)) \<and>
   (\<not> hasRemoteDebugging g \<longrightarrow>
      group_port g = None \<and> group_lookup portMap g = Undefined \<and>
      patch_group portMap g = Inr Same \<and>
      (\<forall>new. apply_cdp portMap prev = Inr new \<longrightarrow> (\<forall>i<length prev. prev ! i = g \<longrightarrow> new ! i = g))) \<and>
   (list_all (\<lambda>p. is_browser p \<longrightarrow> \<not> declares_debug_port p) (processes g) \<longrightarrow>
      \<not> root_declares_port g \<and> \<not> hasRemoteDebugging g)"
proof -
  have a: "query_port g = None \<and> queried_ports (gs1 @ g # gs2) = queried_ports (gs1 @ gs2)"
    if "\<not> root_declares_port g"
    using that by (simp add: query_port_None queried_ports_skip)
  have b: "group_port g = None \<and> group_lookup portMap g = Undefined \<and>
      patch_group portMap g = Inr Same \<and>
      (\<forall>new. apply_cdp portMap prev = Inr new \<longrightarrow> (\<forall>i<length prev. prev ! i = g \<longrightarrow> new ! i = g))"
    if "\<not> hasRemoteDebugging g"
  proof -
    from that have p: "group_port g = None" by (rule group_port_None)
    then have l: "group_lookup portMap g = Undefined" by (simp add: group_lookup_def)
    then have m: "merged_group portMap g = g"
      by (simp add: merged_group_def group_pages_def map_merge_proc_None)
    have "new ! i = g" if "apply_cdp portMap prev = Inr new" "i < length prev" "prev ! i = g" for new i
    proof -
      from that(1) have "new = merged_groups portMap prev"
        by (simp add: apply_cdp_cases split: if_splits)
      with that(2,3) m show ?thesis by (simp add: merged_groups_def)
    qed
    with p l show ?thesis by (simp add: patch_group_lookup)
  qed
  have c: "\<not> root_declares_port g \<and> \<not> hasRemoteDebugging g"
    if "list_all (\<lambda>p. is_browser p \<longrightarrow> \<not> declares_debug_port p) (processes g)"
    using no_browser_declares [OF that] by simp
  from a b c show ?thesis by blast
qed

theorem no_debug_flag_no_query_no_patch_witness:
  "list_all (\<lambda>p. \<not> is_browser p \<or> \<not> declares_debug_port p) (processes sample_plain_group) \<and>
   queried_ports [sample_group, sample_plain_group] = [''9222''] \<and>
   queried_ports [sample_group] = [''9222''] \<and>
   patch_group sample_portMap sample_plain_group = Inr Same \<and>
   apply_cdp sample_portMap [sample_group, sample_plain_group] = Inr [sample_group_patched, sample_plain_group]"
proof -
  have h: "list_all (\<lambda>p. is_browser p \<longrightarrow> \<not> declares_debug_port p) (processes sample_plain_group)"
    by (simp add: declares_debug_port_def merge_eval sample_defs)
  note t = no_debug_flag_no_query_no_patch
             [of sample_plain_group "[sample_group]" "[]" sample_portMap "[sample_group, sample_plain_group]"]
  from t h have n: "\<not> root_declares_port sample_plain_group" "\<not> hasRemoteDebugging sample_plain_group"
    by blast+
  from t n have q: "queried_ports ([sample_group] @ sample_plain_group # []) = queried_ports ([sample_group] @ [])"
    and p: "patch_group sample_portMap sample_plain_group = Inr Same"
    by blast+
  have e: "queried_ports [sample_group] = [''9222'']"
    by (simp add: queried_ports_def query_port_def group_root_def map_filter_simps merge_eval sample_defs)
  have r: "apply_cdp sample_portMap [sample_group, sample_plain_group] = Inr [sample_group_patched, sample_plain_group]"
    by (simp add: merge_eval sample_defs)
  from h q p e r show ?thesis by (simp add: list_all_iff)
qed

text \<open>
  C9. The claim fails on the code at a port text that names a member every object
  inherits. The browser of the group was started with the flag value
  \<open>constructor\<close>; the answer of the debug endpoint has data for port 9222 only, so it
  has none for this port. The guard \<open>!portMap[port]\<close> does not see that: the read yields
  the inherited member, the merge of the group throws a TypeError, and the run of the
  refresh cycle ends with that error instead of a state.
\<close>

theorem cdp_inherited_port_throws:
  "group_port sample_named_group = Some ''constructor'' \<and>
   map_of sample_portMap ''constructor'' = None \<and>
   patch_group sample_portMap sample_named_group = Inl TypeError \<and>
   run initial_state sample_named_run = Inl TypeError"
  by (simp add: state_eval carry_eval merge_eval sample_defs)

text \<open>
  C10. When the merge would change no value, the updater hands back the list it
  received, and every group whose records keep their values is handed back as the same
  object. Merging the same answer a second time therefore hands back the list of the
  first merge, and the component state after the second settlement is the state after
  the first.
\<close>

theorem cdp_noop_identity:
  "(apply_cdp portMap prev = Inr prev \<longrightarrow> cdp_update portMap prev = Inr Same) \<and>
   (patch_group portMap g = Inr r \<longrightarrow> resolve g r = g \<longrightarrow> r = Same) \<and>
   (apply_cdp portMap prev = Inr new \<longrightarrow> cdp_update portMap new = Inr Same) \<and>
   (step st (CdpSettled n (CdpResolved (Some portMap))) = Inr st' \<longrightarrow>
      step st' (CdpSettled m (CdpResolved (Some portMap))) = Inr st')"
proof -
  have a: "cdp_update portMap prev = Inr Same" if "apply_cdp portMap prev = Inr prev"
    using that by (simp add: apply_cdp_cases cdp_update_cases split: if_splits)
  have b: "r = Same" if "patch_group portMap g = Inr r" "resolve g r = g"
    using patch_group_Inr [OF that(1)] that(2) by simp
  have c: "cdp_update portMap new = Inr Same" if "apply_cdp portMap prev = Inr new"
    using that
    by (auto simp: apply_cdp_cases cdp_update_cases merged_groups_idem merge_throws_merged_groups
             split: if_splits)
  have d: "step st' (CdpSettled m (CdpResolved (Some portMap))) = Inr st'"
    if "step st (CdpSettled n (CdpResolved (Some portMap))) = Inr st'"
    using that
    by (auto simp: apply_cdp_cases merged_groups_idem merge_throws_merged_groups split: if_splits)
  from a b c d show ?thesis by blast
qed

theorem cdp_noop_identity_witness:
  "apply_cdp sample_portMap [sample_group_patched] = Inr [sample_group_patched] \<and>
   cdp_update sample_portMap [sample_group_patched] = Inr Same"
proof -
  have h: "apply_cdp sample_portMap [sample_group_patched] = Inr [sample_group_patched]"
    by (simp add: merge_eval sample_defs)
  from cdp_noop_identity [of sample_portMap "[sample_group_patched]" sample_group Same
                             "[sample_group_patched]" initial_state 0 initial_state 0]
  show ?thesis using h by simp
qed

end
